theory Spec2Isabelle
  imports Complex_Main "HOL-Library.Word" "HOL-Library.AList"
begin

section \<open>The msch schematic codec\<close>

text \<open>
  A shallow embedding of \<^verbatim>\<open>src/src/Schematic.ts\<close>: the class \<^verbatim>\<open>Schematic\<close> with its
  constructor, \<^verbatim>\<open>read\<close>, \<^verbatim>\<open>write\<close>, \<^verbatim>\<open>getBlockMap\<close>, \<^verbatim>\<open>sortTiles\<close>, \<^verbatim>\<open>unsortTiles\<close>,
  \<^verbatim>\<open>getTileAt\<close> and \<^verbatim>\<open>setTileAt\<close>.

  The file imports \<^verbatim>\<open>SmartBuffer\<close>, \<^verbatim>\<open>Tile\<close>, \<^verbatim>\<open>TypeIO\<close>, \<^verbatim>\<open>Point2\<close> and \<^verbatim>\<open>fail\<close>, whose
  sources are not available, and the library \<^verbatim>\<open>zlib\<close>.  The byte cursor and the coordinate
  packing are modelled from the specification; everything else that is not visible
  (zlib, the configuration codec, \<^verbatim>\<open>Tile.readConfig\<close>/\<^verbatim>\<open>writeConfig\<close>, \<^verbatim>\<open>Point2\<close> as called by
  the container, \<^verbatim>\<open>JSON.parse\<close>) is a parameter of the model, collected in the record
  \<open>externals\<close>.

  JavaScript numbers that the code handles are integers here (\<open>int\<close>).  A call that throws is
  a value: \<open>Inl fault\<close>, or \<open>Thrown fault\<close> inside \<open>read\<close>, where the third possibility is the
  descriptive string that \<open>read\<close> returns (\<open>Rejected\<close>).
\<close>

subsection \<open>Faults and results\<close>

text \<open>What can be thrown while the code of \<^verbatim>\<open>Schematic.ts\<close> runs.\<close>

datatype fault =
    BufferOutOfBounds             \<comment> \<open>a SmartBuffer read past the end of the data\<close>
  | ZlibError                     \<comment> \<open>\<^verbatim>\<open>zlib.inflateSync\<close> threw\<close>
  | InvalidArrayLength            \<comment> \<open>RangeError of \<^verbatim>\<open>new Array(n)\<close>, \<open>n\<close> negative or above \<open>2^32 - 1\<close>\<close>
  | UndefinedAccess               \<comment> \<open>TypeError: a property of \<^verbatim>\<open>undefined\<close> was read or written\<close>
  | ConfigFault                   \<comment> \<open>\<^verbatim>\<open>TypeIO.readObject\<close> threw\<close>
  | PositionFailure int int int int
      \<comment> \<open>\<^verbatim>\<open>fail(`Invalid position (x,y): out of bounds for schematic of size wxh`)\<close> in \<^verbatim>\<open>sortTiles\<close>\<close>

text \<open>
  The strings that \<^verbatim>\<open>read\<close> returns, one constructor per template literal, carrying the
  interpolated numbers:
  \<^item> \<open>NotASchematic\<close>: \<^verbatim>\<open>Not a schematic file (header bytes did not match)\<close>
  \<^item> \<open>UnknownVersion v\<close>: \<^verbatim>\<open>Unknown schematic version ${version}\<close>
  \<^item> \<open>TooLarge\<close>: \<^verbatim>\<open>Schematic is too large, maximum size is 128x128.\<close>
  \<^item> \<open>TooManyTiles m n\<close>: \<^verbatim>\<open>Schematic contains too many tiles: maximum possible is width * height (${width * height}), but there were ${numTiles} tiles.\<close>
  \<^item> \<open>InvalidRotation r\<close>: \<^verbatim>\<open>Invalid rotation ${rotation}, valid values are 0, 1, 2, 3\<close>
  \<^item> \<open>InvalidPosition x y w h\<close>: \<^verbatim>\<open>Invalid position (${x},${y}): out of bounds for schematic of size ${width}x${height}\<close>
\<close>

datatype read_error =
    NotASchematic
  | UnknownVersion int
  | TooLarge
  | TooManyTiles int int
  | InvalidRotation int
  | InvalidPosition int int int int

datatype 'a outcome = Thrown fault | Rejected read_error | Done 'a

subsection \<open>The byte cursor\<close>

type_synonym byte = "8 word"

text \<open>Modelled from the spec: the text codec of \<^verbatim>\<open>SmartBuffer\<close> (section 4.1, length-prefixed
  UTF-8).  A JavaScript string is represented by the bytes of its UTF-8 encoding, one \<open>char\<close>
  per byte.  A cursor in read mode is the list of the bytes not yet consumed.\<close>

definition byte_of_char :: "char \<Rightarrow> byte" where
  "byte_of_char c = word_of_int (of_char c)"

definition char_of_byte :: "byte \<Rightarrow> char" where
  "char_of_byte b = char_of (uint b)"

text \<open>Modelled from the spec: \<^verbatim>\<open>SmartBuffer.readUInt8\<close> (the class is imported from
  \<^verbatim>\<open>./SmartBuffer.js\<close>, which is not among the sources).  Section 4.1: one unsigned byte;
  reading past the end fails.\<close>

fun readUInt8 :: "byte list \<Rightarrow> (int \<times> byte list) option" where
  "readUInt8 (b # bs) = Some (uint b, bs)"
| "readUInt8 [] = None"

text \<open>Modelled from the spec: \<^verbatim>\<open>SmartBuffer.readInt8\<close>, one signed (two's complement) byte.\<close>

fun readInt8 :: "byte list \<Rightarrow> (int \<times> byte list) option" where
  "readInt8 (b # bs) = Some (sint b, bs)"
| "readInt8 [] = None"

text \<open>Modelled from the spec: \<^verbatim>\<open>SmartBuffer.readUInt16BE\<close>, two bytes, big-endian, unsigned.\<close>

fun readUInt16BE :: "byte list \<Rightarrow> (int \<times> byte list) option" where
  "readUInt16BE (a # b # bs) = Some (uint a * 256 + uint b, bs)"
| "readUInt16BE _ = None"

text \<open>Modelled from the spec: \<^verbatim>\<open>SmartBuffer.readInt32BE\<close>, four bytes, big-endian, two's
  complement.\<close>

fun readInt32BE :: "byte list \<Rightarrow> (int \<times> byte list) option" where
  "readInt32BE (a # b # c # d # bs) =
     (let u = ((uint a * 256 + uint b) * 256 + uint c) * 256 + uint d
      in Some (if u < 2147483648 then u else u - 4294967296, bs))"
| "readInt32BE _ = None"

text \<open>Modelled from the spec: \<^verbatim>\<open>SmartBuffer.readUTF8\<close>, a 16-bit unsigned length in bytes
  followed by that many bytes of text.  The specification does not say what the decoder makes
  of bytes that are not well-formed UTF-8; they are kept as they are here, and the theorems
  that read text back ask for well-formed text (\<open>wellFormedUTF8\<close> below).\<close>

definition readUTF8 :: "byte list \<Rightarrow> (string \<times> byte list) option" where
  "readUTF8 d =
     (case readUInt16BE d of
        None \<Rightarrow> None
      | Some (n, r) \<Rightarrow>
          if int (length r) < n then None
          else Some (map char_of_byte (take (nat n) r), drop (nat n) r))"

text \<open>Modelled from the spec: \<^verbatim>\<open>SmartBuffer.writeUInt8\<close>.  The specification does not say
  what a writer does with a value outside its range; here the low bits are kept, and no
  theorem below relies on a writer outside its range.\<close>

definition writeUInt8 :: "int \<Rightarrow> byte list" where
  "writeUInt8 v = [word_of_int v]"

text \<open>Modelled from the spec: \<^verbatim>\<open>SmartBuffer.writeUInt16BE\<close>, big-endian.\<close>

definition writeUInt16BE :: "int \<Rightarrow> byte list" where
  "writeUInt16BE v = [word_of_int (v div 256), word_of_int v]"

text \<open>Modelled from the spec: \<^verbatim>\<open>SmartBuffer.writeInt32BE\<close>, big-endian, two's complement.\<close>

definition writeInt32BE :: "int \<Rightarrow> byte list" where
  "writeInt32BE v =
     [word_of_int (v div 16777216), word_of_int (v div 65536), word_of_int (v div 256),
      word_of_int v]"

text \<open>Modelled from the spec: \<^verbatim>\<open>SmartBuffer.writeUTF8\<close>, the 16-bit length in bytes, then the
  bytes of the text.\<close>

definition writeUTF8 :: "string \<Rightarrow> byte list" where
  "writeUTF8 s = writeUInt16BE (int (length s)) @ map byte_of_char s"

subsection \<open>Coordinate packing\<close>

text \<open>
  \<^verbatim>\<open>Point2\<close> is imported from \<^verbatim>\<open>./Point2.js\<close>, which is not among the sources.  The
  specification (sections 3, 4.2 and 9) fixes 16 bits per axis in one 32-bit integer and
  leaves open which axis occupies the high half and whether a half is read back signed or
  unsigned.  Both choices are parameters of the model.
\<close>

datatype axis_order = XHigh | YHigh

datatype half_sign = Unsigned16 | Signed16

text \<open>Modelled from the spec: the packed coordinate is one integer of the format, written
  with \<^verbatim>\<open>writeInt32BE\<close>; \<open>toInt32\<close> reduces a number to that range, as the bitwise operators
  of JavaScript do.\<close>

definition toInt32 :: "int \<Rightarrow> int" where
  "toInt32 u = (let m = u mod 4294967296 in if m < 2147483648 then m else m - 4294967296)"

text \<open>Modelled from the spec: two 16-bit halves, \<open>hi\<close> above \<open>lo\<close>.\<close>

definition pack_halves :: "int \<Rightarrow> int \<Rightarrow> int" where
  "pack_halves hi lo = toInt32 ((hi mod 65536) * 65536 + lo mod 65536)"

text \<open>Modelled from the spec: \<^verbatim>\<open>Point2.pack\<close>, 16 bits per axis in one integer.\<close>

definition Point2_pack :: "axis_order \<Rightarrow> int \<Rightarrow> int \<Rightarrow> int" where
  "Point2_pack ord x y = (case ord of XHigh \<Rightarrow> pack_halves x y | YHigh \<Rightarrow> pack_halves y x)"

text \<open>Modelled from the spec: a 16-bit half read as an unsigned or as a signed number.\<close>

definition read_half :: "half_sign \<Rightarrow> int \<Rightarrow> int" where
  "read_half sg v =
     (case sg of Unsigned16 \<Rightarrow> v | Signed16 \<Rightarrow> if v < 32768 then v else v - 65536)"

text \<open>Modelled from the spec: \<^verbatim>\<open>Point2.unpack\<close>, the two 16-bit halves of the integer.\<close>

definition Point2_unpack :: "axis_order \<Rightarrow> half_sign \<Rightarrow> int \<Rightarrow> int \<times> int" where
  "Point2_unpack ord sg p =
     (let u = p mod 4294967296;
          hi = read_half sg (u div 65536);
          lo = read_half sg (u mod 65536)
      in case ord of XHigh \<Rightarrow> (hi, lo) | YHigh \<Rightarrow> (lo, hi))"

text \<open>Modelled from the spec: the coordinates that 16 bits can hold, the domain on which the
  packing has to be lossless.\<close>

definition representable :: "half_sign \<Rightarrow> int \<Rightarrow> bool" where
  "representable sg v =
     (case sg of Unsigned16 \<Rightarrow> 0 \<le> v \<and> v < 65536 | Signed16 \<Rightarrow> - 32768 \<le> v \<and> v < 32768)"

subsection \<open>Tiles, schematics and what the codec takes from outside\<close>

text \<open>
  The members of \<^verbatim>\<open>Tile\<close> that \<^verbatim>\<open>Schematic.ts\<close> uses: \<^verbatim>\<open>name\<close>, \<^verbatim>\<open>x\<close>, \<^verbatim>\<open>y\<close>, \<^verbatim>\<open>config\<close>,
  \<^verbatim>\<open>rotation\<close> (the arguments of \<^verbatim>\<open>new Tile(block, x, y, config, rotation)\<close>).  The fields
  \<^verbatim>\<open>x\<close> and \<^verbatim>\<open>y\<close> are called \<open>xpos\<close> and \<open>ypos\<close>.  The type of a configuration value is the
  parameter \<open>'c\<close>.  The class itself (\<^verbatim>\<open>./Tile.js\<close>) is not among the sources; its constructor
  is taken to store its five arguments.
\<close>

record 'c Tile =
  name :: string
  xpos :: int
  ypos :: int
  config :: 'c
  rotation :: int

text \<open>The result of \<^verbatim>\<open>JSON.parse\<close>: any JSON value.\<close>

datatype json =
    JNull
  | JBool bool
  | JNumber rat
  | JString string
  | JArray "json list"
  | JObject "(string \<times> json) list"

text \<open>
  The fields of the class.  \<open>tags\<close> lists the entries of the object in the order of
  \<^verbatim>\<open>Object.entries\<close>.  \<open>labels\<close> is declared \<^verbatim>\<open>string[]\<close> and holds at run time whatever
  \<^verbatim>\<open>JSON.parse\<close> returned, so it is a JSON value here.  \<open>tiles\<close> is the grid, a list of rows;
  \<open>None\<close> is \<^verbatim>\<open>null\<close>.
\<close>

record 'c Schematic =
  height :: int
  width :: int
  version :: int
  tags :: "(string \<times> string) list"
  labels :: json
  tiles :: "'c Tile option list list"

text \<open>
  The functions that \<^verbatim>\<open>Schematic.ts\<close> calls and that are not in the sources:
  \<^item> \<open>inflateSync\<close>, \<open>deflateSync\<close>: zlib; \<open>None\<close> when \<^verbatim>\<open>inflateSync\<close> throws;
  \<^item> \<open>unpack\<close>, \<open>pack\<close>: \<^verbatim>\<open>Point2.unpack\<close> and \<^verbatim>\<open>Point2.pack\<close>;
  \<^item> \<open>readObject\<close>, \<open>writeObject\<close>: \<^verbatim>\<open>TypeIO.readObject\<close> on the cursor (\<open>None\<close> when it
    throws) and \<^verbatim>\<open>TypeIO.writeObject\<close>;
  \<^item> \<open>readConfig\<close>, \<open>writeConfig\<close>: the methods of \<^verbatim>\<open>Tile\<close>, which update the tile in place;
  \<^item> \<open>JSON_parse\<close>: \<^verbatim>\<open>JSON.parse\<close>, \<open>None\<close> when it throws.
\<close>

record 'c externals =
  inflateSync :: "byte list \<Rightarrow> byte list option"
  deflateSync :: "byte list \<Rightarrow> byte list"
  unpack :: "int \<Rightarrow> int \<times> int"
  pack :: "int \<Rightarrow> int \<Rightarrow> int"
  readObject :: "byte list \<Rightarrow> ('c \<times> byte list) option"
  writeObject :: "'c \<Rightarrow> byte list"
  readConfig :: "'c Tile \<Rightarrow> 'c Tile"
  writeConfig :: "'c Tile \<Rightarrow> 'c Tile"
  JSON_parse :: "string \<Rightarrow> json option"

subsection \<open>Sorting tiles into a grid and back\<close>

text \<open>
  \<^verbatim>\<open>Array.from({length: height}, () => new Array<Tile | null>(width).fill(null))\<close>.
  \<^verbatim>\<open>Array.from\<close> first creates the array of rows with \<^verbatim>\<open>new Array(height)\<close>, which throws
  for a height above \<open>2^32 - 1\<close> (a negative height counts as 0).  The callback then runs once
  per row, so \<^verbatim>\<open>new Array(width)\<close> throws only when there is a row.
\<close>

definition emptyGrid :: "int \<Rightarrow> int \<Rightarrow> fault + 'c Tile option list list" where
  "emptyGrid w h =
     (if 4294967295 < h then Inl InvalidArrayLength
      else if 0 < h \<and> (w < 0 \<or> 4294967295 < w) then Inl InvalidArrayLength
      else Inr (replicate (nat h) (replicate (nat w) None)))"

text \<open>
  The loop of \<^verbatim>\<open>sortTiles\<close>.  The list it runs over is a JavaScript array that may have
  holes (\<^verbatim>\<open>read\<close> leaves one for every record it skips); \<open>None\<close> is a hole, which
  \<^verbatim>\<open>for (const tile of tiles)\<close> visits as \<^verbatim>\<open>undefined\<close>, and \<^verbatim>\<open>tile.x\<close> then throws.  After the
  bounds check both indices are inside the grid.  \<^verbatim>\<open>fail\<close> (\<^verbatim>\<open>./utils.js\<close>, not among the
  sources) is taken to throw: section 7 of the specification calls this condition fatal.
\<close>

fun placeTiles ::
  "'c Tile option list \<Rightarrow> int \<Rightarrow> int \<Rightarrow> 'c Tile option list list \<Rightarrow> fault + 'c Tile option list list"
where
  "placeTiles [] w h g = Inr g"
| "placeTiles (None # ts) w h g = Inl UndefinedAccess"
| "placeTiles (Some t # ts) w h g =
     (if \<not> (0 \<le> xpos t \<and> xpos t < w \<and> 0 \<le> ypos t \<and> ypos t < h)
      then Inl (PositionFailure (xpos t) (ypos t) w h)
      else placeTiles ts w h (g[nat (ypos t) := (g ! nat (ypos t))[nat (xpos t) := Some t]]))"

definition sortTiles ::
  "'c Tile option list \<Rightarrow> int \<Rightarrow> int \<Rightarrow> fault + 'c Tile option list list"
where
  "sortTiles ts w h = (case emptyGrid w h of Inl f \<Rightarrow> Inl f | Inr g \<Rightarrow> placeTiles ts w h g)"

text \<open>\<^verbatim>\<open>tiles.flat().filter(Boolean)\<close>\<close>

definition unsortTiles :: "'c Tile option list list \<Rightarrow> 'c Tile list" where
  "unsortTiles g = map the (filter (\<lambda>c. c \<noteq> None) (concat g))"

subsection \<open>The block map\<close>

text \<open>
  The \<^verbatim>\<open>Map<string, number>\<close> of \<^verbatim>\<open>getBlockMap\<close> is the list of its entries in insertion
  order, which is the order of \<^verbatim>\<open>mapping.keys()\<close>; \<^verbatim>\<open>mapping.size\<close> is its length.
\<close>

fun blockMapLoop ::
  "(string \<times> nat) list \<Rightarrow> 'c Tile list \<Rightarrow> (string \<times> nat) list \<times> ('c Tile \<times> nat) list"
where
  "blockMapLoop mapping [] = (mapping, [])"
| "blockMapLoop mapping (t # ts) =
     (case map_of mapping (name t) of
        Some i \<Rightarrow>
          (case blockMapLoop mapping ts of (m, rest) \<Rightarrow> (m, (t, i) # rest))
      | None \<Rightarrow>
          (let i = length mapping
           in case blockMapLoop (mapping @ [(name t, i)]) ts of (m, rest) \<Rightarrow> (m, (t, i) # rest)))"

definition getBlockMap :: "'c Tile list \<Rightarrow> string list \<times> ('c Tile \<times> nat) list" where
  "getBlockMap unsortedTiles =
     (case blockMapLoop [] unsortedTiles of (mapping, otherMapping) \<Rightarrow> (map fst mapping, otherMapping))"

subsection \<open>Construction\<close>

text \<open>\<^verbatim>\<open>for (let column of this.tiles) for (let tile of column) tile?.readConfig()\<close>, and
  the same loop with \<^verbatim>\<open>writeConfig\<close>.\<close>

definition readConfigs :: "'c externals \<Rightarrow> 'c Schematic \<Rightarrow> 'c Schematic" where
  "readConfigs ext s = s\<lparr>tiles := map (map (map_option (readConfig ext))) (tiles s)\<rparr>"

definition writeConfigs :: "'c externals \<Rightarrow> 'c Schematic \<Rightarrow> 'c Schematic" where
  "writeConfigs ext s = s\<lparr>tiles := map (map (map_option (writeConfig ext))) (tiles s)\<rparr>"

text \<open>The constructor; its parameters are in the order of the source, \<open>height\<close> first.\<close>

definition Schematic_new ::
  "'c externals \<Rightarrow> int \<Rightarrow> int \<Rightarrow> int \<Rightarrow> (string \<times> string) list \<Rightarrow> json \<Rightarrow> 'c Tile option list
     \<Rightarrow> fault + 'c Schematic"
where
  "Schematic_new ext h w v tgs lbls ts =
     (case sortTiles ts w h of
        Inl f \<Rightarrow> Inl f
      | Inr g \<Rightarrow>
          Inr (readConfigs ext
                 \<lparr>height = h, width = w, version = v, tags = tgs, labels = lbls, tiles = g\<rparr>))"

subsection \<open>Decoding\<close>

definition headerBytes :: "int list" where
  "headerBytes = map of_char ''msch''"

text \<open>The loop over \<^verbatim>\<open>Schematic.headerBytes\<close> at the start of \<^verbatim>\<open>read\<close>.\<close>

fun checkHeader :: "int list \<Rightarrow> byte list \<Rightarrow> byte list outcome" where
  "checkHeader [] d = Done d"
| "checkHeader (c # cs) d =
     (case readUInt8 d of
        None \<Rightarrow> Thrown BufferOutOfBounds
      | Some (b, d') \<Rightarrow> if b \<noteq> c then Rejected NotASchematic else checkHeader cs d')"

text \<open>
  \<^verbatim>\<open>tags[key] = value\<close> on the object that \<^verbatim>\<open>let tags = {}\<close> created, the list being the
  entries of the object in the order of \<^verbatim>\<open>Object.entries\<close>:
  \<^item> the key \<^verbatim>\<open>__proto__\<close> is the accessor inherited from \<^verbatim>\<open>Object.prototype\<close>, whose setter
    ignores a value that is not an object: the assignment of a string stores nothing;
  \<^item> an existing key keeps its place and takes the new value;
  \<^item> a new key that is an array index (the decimal numeral, without a leading zero, of an
    integer from 0 to \<open>2^32 - 2\<close>) is listed with the array indices, which come first, in
    ascending numeric order;
  \<^item> any other new key is listed last.
\<close>

definition isDigit :: "char \<Rightarrow> bool" where
  "isDigit c = (48 \<le> (of_char c :: int) \<and> (of_char c :: int) \<le> 57)"

definition decimal :: "string \<Rightarrow> int" where
  "decimal k = foldl (\<lambda>n c. 10 * n + (of_char c - 48)) 0 k"

definition isArrayIndex :: "string \<Rightarrow> bool" where
  "isArrayIndex k =
     (k \<noteq> [] \<and> list_all isDigit k \<and> (k = ''0'' \<or> hd k \<noteq> CHR ''0'') \<and> decimal k < 4294967295)"

definition objectSet ::
  "string \<Rightarrow> string \<Rightarrow> (string \<times> string) list \<Rightarrow> (string \<times> string) list"
where
  "objectSet k v tgs =
     (if k = ''__proto__'' then tgs
      else if k \<in> set (map fst tgs) then AList.update k v tgs
      else if isArrayIndex k
      then takeWhile (\<lambda>e. isArrayIndex (fst e) \<and> decimal (fst e) < decimal k) tgs
           @ (k, v) # dropWhile (\<lambda>e. isArrayIndex (fst e) \<and> decimal (fst e) < decimal k) tgs
      else tgs @ [(k, v)])"

text \<open>\<^verbatim>\<open>tags[data.readUTF8()] = data.readUTF8()\<close>, \<open>n\<close> times: the key is read first.\<close>

fun readTags ::
  "nat \<Rightarrow> (string \<times> string) list \<Rightarrow> byte list \<Rightarrow> ((string \<times> string) list \<times> byte list) option"
where
  "readTags 0 tgs d = Some (tgs, d)"
| "readTags (Suc n) tgs d =
     (case readUTF8 d of
        None \<Rightarrow> None
      | Some (k, d1) \<Rightarrow>
          (case readUTF8 d1 of
             None \<Rightarrow> None
           | Some (v, d2) \<Rightarrow> readTags n (objectSet k v tgs) d2))"

text \<open>\<^verbatim>\<open>try { labels = JSON.parse(tags["labels"]) } catch { labels = [] }\<close>.  Without a
  \<^verbatim>\<open>labels\<close> tag the argument is \<^verbatim>\<open>undefined\<close>, which \<^verbatim>\<open>JSON.parse\<close> rejects.\<close>

definition parseLabels :: "'c externals \<Rightarrow> (string \<times> string) list \<Rightarrow> json" where
  "parseLabels ext tgs =
     (case map_of tgs ''labels'' of
        None \<Rightarrow> JArray []
      | Some v \<Rightarrow> (case JSON_parse ext v of None \<Rightarrow> JArray [] | Some j \<Rightarrow> j))"

text \<open>The loop that fills \<^verbatim>\<open>blocks\<close>.\<close>

fun readBlocks :: "nat \<Rightarrow> byte list \<Rightarrow> (string list \<times> byte list) option" where
  "readBlocks 0 d = Some ([], d)"
| "readBlocks (Suc n) d =
     (case readUTF8 d of
        None \<Rightarrow> None
      | Some (b, d1) \<Rightarrow>
          (case readBlocks n d1 of None \<Rightarrow> None | Some (bs, d2) \<Rightarrow> Some (b # bs, d2)))"

text \<open>\<^verbatim>\<open>blocks[id]\<close>: \<^verbatim>\<open>undefined\<close> (\<open>None\<close>) outside the table.\<close>

definition blockAt :: "string list \<Rightarrow> int \<Rightarrow> string option" where
  "blockAt blocks i = (if 0 \<le> i \<and> i < int (length blocks) then Some (blocks ! nat i) else None)"

text \<open>
  One pass of the tile loop of \<^verbatim>\<open>read\<close>: the result is the new cursor and what the pass
  leaves in \<^verbatim>\<open>tiles[i]\<close>, a tile or a hole (after \<^verbatim>\<open>continue\<close>).
\<close>

definition readTile ::
  "'c externals \<Rightarrow> string list \<Rightarrow> int \<Rightarrow> int \<Rightarrow> byte list \<Rightarrow> ('c Tile option \<times> byte list) outcome"
where
  "readTile ext blocks w h d =
     (case readInt8 d of
        None \<Rightarrow> Thrown BufferOutOfBounds
      | Some (i, d1) \<Rightarrow>
     (case readInt32BE d1 of
        None \<Rightarrow> Thrown BufferOutOfBounds
      | Some (p, d2) \<Rightarrow>
     (case readObject ext d2 of
        None \<Rightarrow> Thrown ConfigFault
      | Some (cfg, d3) \<Rightarrow>
     (case readInt8 d3 of
        None \<Rightarrow> Thrown BufferOutOfBounds
      | Some (rot, d4) \<Rightarrow>
          (let block = blockAt blocks i; x = fst (unpack ext p); y = snd (unpack ext p)
           in if rot \<notin> {0, 1, 2, 3} then Rejected (InvalidRotation rot)
              else if \<not> (x < w \<and> y < h) then Rejected (InvalidPosition x y w h)
              else if block = None \<or> block = Some [] \<or> block = Some ''air'' then Done (None, d4)
              else Done (Some \<lparr>name = the block, xpos = x, ypos = y, config = cfg,
                                rotation = rot\<rparr>, d4))))))"

fun readTiles ::
  "'c externals \<Rightarrow> string list \<Rightarrow> int \<Rightarrow> int \<Rightarrow> nat \<Rightarrow> byte list
     \<Rightarrow> ('c Tile option list \<times> byte list) outcome"
where
  "readTiles ext blocks w h 0 d = Done ([], d)"
| "readTiles ext blocks w h (Suc n) d =
     (case readTile ext blocks w h d of
        Thrown f \<Rightarrow> Thrown f
      | Rejected e \<Rightarrow> Rejected e
      | Done (c, d') \<Rightarrow>
          (case readTiles ext blocks w h n d' of
             Thrown f \<Rightarrow> Thrown f
           | Rejected e \<Rightarrow> Rejected e
           | Done (cs, d'') \<Rightarrow> Done (c # cs, d'')))"

text \<open>What \<^verbatim>\<open>read\<close> has in hand once it has read the tile count.\<close>

record preamble =
  p_width :: int
  p_height :: int
  p_version :: int
  p_tags :: "(string \<times> string) list"
  p_labels :: json
  p_blocks :: "string list"
  p_numTiles :: int
  p_rest :: "byte list"

text \<open>\<^verbatim>\<open>read\<close> from its first line to \<^verbatim>\<open>let numTiles = data.readInt32BE()\<close>.\<close>

definition readFields :: "'c externals \<Rightarrow> byte list \<Rightarrow> preamble outcome" where
  "readFields ext inputData =
     (case checkHeader headerBytes inputData of
        Thrown f \<Rightarrow> Thrown f
      | Rejected e \<Rightarrow> Rejected e
      | Done d0 \<Rightarrow>
     (case readInt8 d0 of
        None \<Rightarrow> Thrown BufferOutOfBounds
      | Some (v, _) \<Rightarrow>
          if v \<noteq> 1 then Rejected (UnknownVersion v)
          else
     (case inflateSync ext (drop 5 inputData) of
        None \<Rightarrow> Thrown ZlibError
      | Some data \<Rightarrow>
     (case readUInt16BE data of
        None \<Rightarrow> Thrown BufferOutOfBounds
      | Some (w, d1) \<Rightarrow>
     (case readUInt16BE d1 of
        None \<Rightarrow> Thrown BufferOutOfBounds
      | Some (h, d2) \<Rightarrow>
          if w > 128 \<or> h > 128 then Rejected TooLarge
          else
     (case readUInt8 d2 of
        None \<Rightarrow> Thrown BufferOutOfBounds
      | Some (tagcount, d3) \<Rightarrow>
     (case readTags (nat tagcount) [] d3 of
        None \<Rightarrow> Thrown BufferOutOfBounds
      | Some (tgs, d4) \<Rightarrow>
     (case readUInt8 d4 of
        None \<Rightarrow> Thrown BufferOutOfBounds
      | Some (nblocks, d5) \<Rightarrow>
     (case readBlocks (nat nblocks) d5 of
        None \<Rightarrow> Thrown BufferOutOfBounds
      | Some (blocks, d6) \<Rightarrow>
     (case readInt32BE d6 of
        None \<Rightarrow> Thrown BufferOutOfBounds
      | Some (numTiles, d7) \<Rightarrow>
          Done \<lparr>p_width = w, p_height = h, p_version = v, p_tags = tgs,
                 p_labels = parseLabels ext tgs, p_blocks = blocks,
                 p_numTiles = numTiles, p_rest = d7\<rparr>))))))))))"

text \<open>\<^verbatim>\<open>read\<close>.  \<^verbatim>\<open>new Array<Tile>(numTiles)\<close> comes before the check of the tile count and
  throws for a negative count.\<close>

definition read :: "'c externals \<Rightarrow> byte list \<Rightarrow> 'c Schematic outcome" where
  "read ext inputData =
     (case readFields ext inputData of
        Thrown f \<Rightarrow> Thrown f
      | Rejected e \<Rightarrow> Rejected e
      | Done p \<Rightarrow>
          if p_numTiles p < 0 then Thrown InvalidArrayLength
          else if p_numTiles p > p_width p * p_height p
          then Rejected (TooManyTiles (p_width p * p_height p) (p_numTiles p))
          else
     (case readTiles ext (p_blocks p) (p_width p) (p_height p) (nat (p_numTiles p)) (p_rest p) of
        Thrown f \<Rightarrow> Thrown f
      | Rejected e \<Rightarrow> Rejected e
      | Done (ts, _) \<Rightarrow>
     (case Schematic_new ext (p_height p) (p_width p) (p_version p) (p_tags p) (p_labels p) ts of
        Inl f \<Rightarrow> Thrown f
      | Inr s \<Rightarrow> Done s)))"

subsection \<open>Encoding\<close>

text \<open>The body of the loop over \<^verbatim>\<open>mapping\<close> in \<^verbatim>\<open>write\<close>.\<close>

definition tileBytes :: "'c externals \<Rightarrow> 'c Tile \<times> nat \<Rightarrow> byte list" where
  "tileBytes ext ti =
     (case ti of (tile, i) \<Rightarrow>
        writeUInt8 (int i) @ writeInt32BE (pack ext (xpos tile) (ypos tile))
        @ writeObject ext (config tile) @ writeUInt8 (rotation tile))"

text \<open>What \<^verbatim>\<open>write\<close> puts into \<^verbatim>\<open>compressableData\<close>.\<close>

definition compressableData :: "'c externals \<Rightarrow> 'c Schematic \<Rightarrow> byte list" where
  "compressableData ext s =
     writeUInt16BE (width s) @ writeUInt16BE (height s)
     @ writeUInt8 (int (length (tags s)))
     @ concat (map (\<lambda>kv. writeUTF8 (fst kv) @ writeUTF8 (snd kv)) (tags s))
     @ (case getBlockMap (unsortTiles (tiles s)) of
          (allNames, mapping) \<Rightarrow>
            writeUInt8 (int (length allNames)) @ concat (map writeUTF8 allNames)
            @ writeInt32BE (int (length mapping)) @ concat (map (tileBytes ext) mapping))"

text \<open>\<^verbatim>\<open>write\<close> first rewrites the configurations of the tiles in place
  (\<^verbatim>\<open>this.writeConfigs()\<close>); the result is the schematic as \<^verbatim>\<open>write\<close> leaves it and the
  bytes of the buffer it returns.  (\<open>write\<close> is a reserved word of Isabelle, hence the
  longer name.)\<close>

definition Schematic_write :: "'c externals \<Rightarrow> 'c Schematic \<Rightarrow> 'c Schematic \<times> byte list" where
  "Schematic_write ext s0 =
     (let s = writeConfigs ext s0
      in (s, concat (map writeUInt8 headerBytes) @ writeUInt8 (version s)
             @ deflateSync ext (compressableData ext s)))"

subsection \<open>Accessors\<close>

text \<open>
  \<^verbatim>\<open>setTileAt\<close> writes into the \<^verbatim>\<open>Tile\<close> object it is given and stores a reference to it in
  the grid, so the accessors are modelled over objects: a store of tiles, and rows whose
  slots hold references.  A row is a JavaScript array: a length and the values found at
  integer keys, \<^verbatim>\<open>undefined\<close> where there is none.
\<close>

type_synonym ref = nat

datatype jsval = Undefined | Null | Ref ref

record jsarray =
  alength :: int
  slot :: "int \<Rightarrow> jsval"

record 'c objects =
  o_width :: int
  o_height :: int
  o_rows :: "jsarray list"
  o_store :: "ref \<Rightarrow> 'c Tile option"

text \<open>\<^verbatim>\<open>row[i] = v\<close>: an index at or above the length extends the array; a negative key
  becomes a property and leaves the length alone.\<close>

definition arraySet :: "jsarray \<Rightarrow> int \<Rightarrow> jsval \<Rightarrow> jsarray" where
  "arraySet a i v =
     \<lparr>alength = (if alength a \<le> i \<and> i < 4294967295 then i + 1 else alength a),
      slot = (slot a)(i := v)\<rparr>"

text \<open>\<^verbatim>\<open>return this.tiles[y][x]\<close>: \<^verbatim>\<open>this.tiles[y]\<close> is \<^verbatim>\<open>undefined\<close> when \<open>y\<close> is not the
  index of a row, and reading \<^verbatim>\<open>[x]\<close> from it throws.\<close>

definition getTileAt :: "'c objects \<Rightarrow> int \<Rightarrow> int \<Rightarrow> fault + jsval" where
  "getTileAt st x y =
     (if 0 \<le> y \<and> y < int (length (o_rows st)) then Inr (slot (o_rows st ! nat y) x)
      else Inl UndefinedAccess)"

text \<open>\<^verbatim>\<open>tile.x = x; tile.y = y; this.tiles[y][x] = tile\<close>.  The result is the state the call
  leaves and the fault it threw, if any; the two assignments to the tile come first.\<close>

definition setTileAt :: "'c objects \<Rightarrow> int \<Rightarrow> int \<Rightarrow> ref \<Rightarrow> 'c objects \<times> fault option" where
  "setTileAt st x y r =
     (let st1 = st\<lparr>o_store := (o_store st)
                   (r := map_option (\<lambda>t. t\<lparr>xpos := x, ypos := y\<rparr>) (o_store st r))\<rparr>
      in if 0 \<le> y \<and> y < int (length (o_rows st))
         then (st1\<lparr>o_rows := (o_rows st)[nat y := arraySet (o_rows st ! nat y) x (Ref r)]\<rparr>, None)
         else (st1, Some UndefinedAccess))"

text \<open>
  The objects of a schematic as the constructor leaves it: every occupied cell holds a tile
  object of its own, numbered here by the cell (row by row).
\<close>

definition rowObjects :: "nat \<Rightarrow> nat \<Rightarrow> 'c Tile option list \<Rightarrow> jsarray" where
  "rowObjects base n row =
     \<lparr>alength = int (length row),
      slot = (\<lambda>i. if 0 \<le> i \<and> i < int (length row)
                    then (case row ! nat i of None \<Rightarrow> Null | Some t \<Rightarrow> Ref (base + nat i))
                    else Undefined)\<rparr>"

definition objectsOf :: "'c Schematic \<Rightarrow> 'c objects" where
  "objectsOf s =
     \<lparr>o_width = width s, o_height = height s,
      o_rows = map (\<lambda>yr. rowObjects (fst yr * nat (width s)) (nat (width s)) (snd yr))
                 (enumerate 0 (tiles s)),
      o_store = (\<lambda>r. if r < length (concat (tiles s)) then concat (tiles s) ! r else None)\<rparr>"

text \<open>\<^verbatim>\<open>new Tile(...)\<close> by a caller: a tile object at a reference not in use.\<close>

definition withTile :: "'c objects \<Rightarrow> ref \<Rightarrow> 'c Tile \<Rightarrow> 'c objects" where
  "withTile st r t = st\<lparr>o_store := (o_store st)(r := Some t)\<rparr>"

text \<open>
  The invariant of the data model (specification, section 3), on objects: a tile referenced
  from slot \<open>x\<close> of row \<open>y\<close> has these coordinates, and they are inside the grid.  A slot is
  misplaced when it refers to a tile for which this fails.
\<close>

definition misplaced :: "'c objects \<Rightarrow> int \<Rightarrow> int \<Rightarrow> ref \<Rightarrow> bool" where
  "misplaced st x y r =
     (0 \<le> y \<and> y < int (length (o_rows st)) \<and> slot (o_rows st ! nat y) x = Ref r
      \<and> (case o_store st r of
            None \<Rightarrow> True
          | Some t \<Rightarrow> \<not> (xpos t = x \<and> ypos t = y \<and> 0 \<le> x \<and> x < o_width st \<and> y < o_height st)))"

definition tileInvariant :: "'c objects \<Rightarrow> bool" where
  "tileInvariant st = (\<nexists>x y r. misplaced st x y r)"

text \<open>The same invariant on a grid of values: the tile in cell \<open>[y][x]\<close> has the coordinates
  \<open>(x, y)\<close>.  \<open>gridShape\<close> says that the grid has \<open>h\<close> rows of \<open>w\<close> cells.\<close>

definition gridShape :: "int \<Rightarrow> int \<Rightarrow> 'c Tile option list list \<Rightarrow> bool" where
  "gridShape w h g = (length g = nat h \<and> list_all (\<lambda>row. length row = nat w) g)"

definition cellsAtHome :: "'c Tile option list list \<Rightarrow> bool" where
  "cellsAtHome g =
     list_all (\<lambda>yr. list_all (\<lambda>xc. case snd xc of
                                       None \<Rightarrow> True
                                     | Some t \<Rightarrow> xpos t = int (fst xc) \<and> ypos t = int (fst yr))
                               (enumerate 0 (snd yr)))
              (enumerate 0 g)"

subsection \<open>An instance of the parameters\<close>

text \<open>
  Concrete functions for the parameters, to run the model on explicit inputs.

  zlib, for data shorter than 65536 bytes: streams made of one final stored block (RFC 1950
  and RFC 1951, section 3.2.4):
  header \<open>78 01\<close>, block header \<open>01\<close>, the length and its complement (16 bits each, low byte
  first), the data, and the Adler-32 checksum of the data (big-endian).  Every such stream
  is one that \<^verbatim>\<open>inflateSync\<close> inflates to the data; \<open>stored_inflate\<close> accepts no other input,
  and in particular not the empty one, on which \<^verbatim>\<open>inflateSync\<close> throws as well.
\<close>

fun adler32_loop :: "int \<Rightarrow> int \<Rightarrow> byte list \<Rightarrow> int" where
  "adler32_loop a b [] = b * 65536 + a"
| "adler32_loop a b (x # xs) =
     (let a' = (a + uint x) mod 65521 in adler32_loop a' ((b + a') mod 65521) xs)"

definition adler32 :: "byte list \<Rightarrow> int" where
  "adler32 d = adler32_loop 1 0 d"

definition stored_deflate :: "byte list \<Rightarrow> byte list" where
  "stored_deflate d =
     [0x78, 0x01, 0x01]
     @ [word_of_int (int (length d)), word_of_int (int (length d) div 256)]
     @ [word_of_int (65535 - int (length d)), word_of_int ((65535 - int (length d)) div 256)]
     @ d @ writeInt32BE (adler32 d)"

definition stored_inflate :: "byte list \<Rightarrow> byte list option" where
  "stored_inflate z =
     (if length z < 11 then None
      else
        let len = uint (z ! 3) + 256 * uint (z ! 4);
            nlen = uint (z ! 5) + 256 * uint (z ! 6);
            body = take (nat len) (drop 7 z);
            trailer = drop (7 + nat len) z
        in if take 3 z = [0x78, 0x01, 0x01] \<and> nlen = 65535 - len
              \<and> int (length z) = 11 + len \<and> trailer = writeInt32BE (adler32 body)
           then Some body else None)"

text \<open>The configuration codec restricted to the value \<^verbatim>\<open>null\<close> (tag byte 0, no payload).\<close>

definition null_readObject :: "byte list \<Rightarrow> (unit \<times> byte list) option" where
  "null_readObject d = (case d of [] \<Rightarrow> None | t # r \<Rightarrow> if t = 0 then Some ((), r) else None)"

definition null_writeObject :: "unit \<Rightarrow> byte list" where
  "null_writeObject c = [0]"

text \<open>\<^verbatim>\<open>JSON.parse\<close> on the two texts used below, \<^verbatim>\<open>5\<close> and \<^verbatim>\<open>[]\<close>.\<close>

definition two_texts_JSON_parse :: "string \<Rightarrow> json option" where
  "two_texts_JSON_parse s =
     (if s = ''5'' then Some (JNumber 5) else if s = ''[]'' then Some (JArray []) else None)"

text \<open>A file with the magic bytes, version 1 and the compressed section \<open>d\<close>.\<close>

definition fileOf :: "byte list \<Rightarrow> byte list" where
  "fileOf d = map byte_of_char ''msch'' @ [1] @ stored_deflate d"

definition sample :: "unit externals" where
  "sample =
     \<lparr>inflateSync = stored_inflate, deflateSync = stored_deflate,
      unpack = Point2_unpack XHigh Unsigned16, pack = Point2_pack XHigh,
      readObject = null_readObject, writeObject = null_writeObject,
      readConfig = (\<lambda>t. t), writeConfig = (\<lambda>t. t),
      JSON_parse = two_texts_JSON_parse\<rparr>"


subsection \<open>Files used as examples\<close>

text \<open>One tile record as \<^verbatim>\<open>write\<close> lays it out: block index, packed position, a \<^verbatim>\<open>null\<close>
  configuration, rotation.\<close>

definition tileRecord :: "int \<Rightarrow> int \<Rightarrow> int \<Rightarrow> int \<Rightarrow> byte list" where
  "tileRecord i x y rot =
     writeUInt8 i @ writeInt32BE (Point2_pack XHigh x y) @ null_writeObject () @ writeUInt8 rot"

text \<open>A 1x1 schematic without tags, with one block name and one tile record.\<close>

definition oneTileFile :: "string \<Rightarrow> int \<Rightarrow> int \<Rightarrow> int \<Rightarrow> byte list" where
  "oneTileFile block x y rot =
     fileOf (writeUInt16BE 1 @ writeUInt16BE 1 @ writeUInt8 0 @ writeUInt8 1 @ writeUTF8 block
             @ writeInt32BE 1 @ tileRecord 0 x y rot)"

text \<open>A 1x1 schematic without tags and block names that declares two tiles.\<close>

definition tooManyFile :: "byte list" where
  "tooManyFile =
     fileOf (writeUInt16BE 1 @ writeUInt16BE 1 @ writeUInt8 0 @ writeUInt8 0 @ writeInt32BE 2)"

text \<open>A 0x0 schematic without tiles whose only tag is \<^verbatim>\<open>labels\<close> with the value \<^verbatim>\<open>5\<close>.\<close>

definition labelsFile :: "byte list" where
  "labelsFile =
     fileOf (writeUInt16BE 0 @ writeUInt16BE 0 @ writeUInt8 1 @ writeUTF8 ''labels''
             @ writeUTF8 ''5'' @ writeUInt8 0 @ writeInt32BE 0)"

text \<open>The fields that \<^verbatim>\<open>read\<close> finds in \<open>oneTileFile ''copper-wall'' 5 5 rot\<close>, up to the tile
  count; the tile record is what is left of the data.\<close>

definition copperFields :: "int \<Rightarrow> preamble" where
  "copperFields rot =
     \<lparr>p_width = 1, p_height = 1, p_version = 1, p_tags = [], p_labels = JArray [],
      p_blocks = [''copper-wall''], p_numTiles = 1, p_rest = [0, 0, 5, 0, 5, 0, word_of_int rot]\<rparr>"

subsection \<open>The encoding order in the words of the specification\<close>

text \<open>Section 4.5: the tiles in iteration order, row-major, \<open>y\<close> ascending, then \<open>x\<close>
  ascending, skipping empty cells.\<close>

definition rowMajor :: "'c Tile option list list \<Rightarrow> 'c Tile list" where
  "rowMajor g =
     concat (map (\<lambda>y. concat (map (\<lambda>x. case g ! y ! x of None \<Rightarrow> [] | Some t \<Rightarrow> [t])
                                    [0..<length (g ! y)]))
                 [0..<length g])"

text \<open>Section 4.5: each distinct name once, in the order of first appearance.\<close>

fun firstAppearance :: "string list \<Rightarrow> string list" where
  "firstAppearance [] = []"
| "firstAppearance (n # ns) = n # filter (\<lambda>m. m \<noteq> n) (firstAppearance ns)"

text \<open>The id of a name: its position in the table.\<close>

fun idOf :: "string list \<Rightarrow> string \<Rightarrow> nat" where
  "idOf [] n = 0"
| "idOf (m # ms) n = (if m = n then 0 else Suc (idOf ms n))"




text \<open>For the proofs about \<open>blockMapLoop\<close>: the keys of the map after the loop has run over
  \<open>ts\<close>, and a list of names paired with their positions.\<close>

fun namesAfter :: "string list \<Rightarrow> 'c Tile list \<Rightarrow> string list" where
  "namesAfter ns [] = ns"
| "namesAfter ns (t # ts) =
     (if name t \<in> set ns then namesAfter ns ts else namesAfter (ns @ [name t]) ts)"

definition numbered :: "string list \<Rightarrow> (string \<times> nat) list" where
  "numbered ns = zip ns [0..<length ns]"

subsection \<open>Schematics used as examples\<close>

definition wall :: "string \<Rightarrow> int \<Rightarrow> int \<Rightarrow> unit Tile" where
  "wall n x y = \<lparr>name = n, xpos = x, ypos = y, config = (), rotation = 0\<rparr>"

definition oneCell :: "unit Tile option \<Rightarrow> unit Schematic" where
  "oneCell c =
     \<lparr>height = 1, width = 1, version = 1, tags = [], labels = JArray [], tiles = [[c]]\<rparr>"

definition twoRows :: "unit Tile option list list" where
  "twoRows = [[Some (wall ''b'' 0 0), None], [Some (wall ''a'' 0 1), Some (wall ''b'' 1 1)]]"

definition twoRowsSchematic :: "json \<Rightarrow> unit Schematic" where
  "twoRowsSchematic lbls =
     \<lparr>height = 2, width = 2, version = 1,
      tags = [(''2'', ''two''), (''10'', ''ten''), (''name'', ''x'')], labels = lbls,
      tiles = twoRows\<rparr>"

subsection \<open>What the round trip asks of a schematic and of the parameters\<close>

text \<open>One step of the loop of \<^verbatim>\<open>sortTiles\<close> on a tile inside the grid, and the bounds check
  of that loop.\<close>

definition place :: "'c Tile option list list \<Rightarrow> 'c Tile \<Rightarrow> 'c Tile option list list" where
  "place g t = g[nat (ypos t) := (g ! nat (ypos t))[nat (xpos t) := Some t]]"

definition inBounds :: "int \<Rightarrow> int \<Rightarrow> 'c Tile \<Rightarrow> bool" where
  "inBounds w h t = (0 \<le> xpos t \<and> xpos t < w \<and> 0 \<le> ypos t \<and> ypos t < h)"

text \<open>
  Well-formed UTF-8 (the Unicode Standard, table 3-7), on the values of the bytes: the
  encodings of the code points up to U+10FFFF without the surrogates, each in its shortest
  form.  These are the byte sequences that a UTF-8 decoder turns into a string whose encoding
  is that sequence again.
\<close>

fun wellFormedUTF8 :: "int list \<Rightarrow> bool" where
  "wellFormedUTF8 [] = True"
| "wellFormedUTF8 (a # r) =
     (if a < 128 then wellFormedUTF8 r
      else if 194 \<le> a \<and> a \<le> 223 then
        (case r of
           b # r1 \<Rightarrow> 128 \<le> b \<and> b \<le> 191 \<and> wellFormedUTF8 r1
         | _ \<Rightarrow> False)
      else if 224 \<le> a \<and> a \<le> 239 then
        (case r of
           b # c # r2 \<Rightarrow>
             (if a = 224 then 160 else 128) \<le> b \<and> b \<le> (if a = 237 then 159 else 191)
             \<and> 128 \<le> c \<and> c \<le> 191 \<and> wellFormedUTF8 r2
         | _ \<Rightarrow> False)
      else if 240 \<le> a \<and> a \<le> 244 then
        (case r of
           b # c # d # r3 \<Rightarrow>
             (if a = 240 then 144 else 128) \<le> b \<and> b \<le> (if a = 244 then 143 else 191)
             \<and> 128 \<le> c \<and> c \<le> 191 \<and> 128 \<le> d \<and> d \<le> 191 \<and> wellFormedUTF8 r3
         | _ \<Rightarrow> False)
      else False)"

text \<open>A string that the text codec can carry: well-formed text whose encoding fits the
  16-bit length.\<close>

definition encodableText :: "string \<Rightarrow> bool" where
  "encodableText t = (length t < 65536 \<and> wellFormedUTF8 (map of_char t))"

text \<open>A tile that \<open>read\<close> accepts and keeps: a rotation from 0 to 3, and a name that is
  neither empty nor \<^verbatim>\<open>air\<close> and that the text codec can carry.\<close>

definition validTile :: "'c Tile \<Rightarrow> bool" where
  "validTile t =
     (rotation t \<in> {0, 1, 2, 3} \<and> name t \<noteq> [] \<and> name t \<noteq> ''air'' \<and> encodableText (name t))"

text \<open>
  The order in which \<^verbatim>\<open>Object.entries\<close> lists the keys of an object: the array indices first,
  in ascending numeric order, then the other keys.  So a key that is an array index is
  followed by greater array indices and by other keys only, and a key that is not an array
  index is followed by no array index.
\<close>

fun entriesOrder :: "string list \<Rightarrow> bool" where
  "entriesOrder [] = True"
| "entriesOrder (k # ks) =
     ((if isArrayIndex k
       then list_all (\<lambda>k'. \<not> isArrayIndex k' \<or> decimal k < decimal k') ks
       else list_all (\<lambda>k'. \<not> isArrayIndex k') ks)
      \<and> entriesOrder ks)"

text \<open>
  A schematic that \<open>read\<close> can accept: version 1, at most 128 by 128, the grid of that shape
  with every tile in the cell of its coordinates, at most 255 tags, valid tiles, and at most
  128 distinct names (\<open>read\<close> takes the block index as a signed byte).  The tags are the
  entries of an object: their keys are distinct and in the order of \<^verbatim>\<open>Object.entries\<close>; no
  key is \<^verbatim>\<open>__proto__\<close>, and the text codec can carry the keys and the values.
\<close>

definition encodable :: "'c Schematic \<Rightarrow> bool" where
  "encodable s =
     (version s = 1 \<and> 0 \<le> width s \<and> width s \<le> 128 \<and> 0 \<le> height s \<and> height s \<le> 128
      \<and> gridShape (width s) (height s) (tiles s) \<and> cellsAtHome (tiles s)
      \<and> distinct (map fst (tags s)) \<and> length (tags s) < 256
      \<and> entriesOrder (map fst (tags s)) \<and> ''__proto__'' \<notin> set (map fst (tags s))
      \<and> list_all (\<lambda>kv. encodableText (fst kv) \<and> encodableText (snd kv)) (tags s)
      \<and> list_all validTile (rowMajor (tiles s))
      \<and> length (firstAppearance (map name (rowMajor (tiles s)))) \<le> 128)"

text \<open>What the round trip asks of the functions that are not in the sources, for one tile:
  \<^verbatim>\<open>Point2.unpack\<close> inverts \<^verbatim>\<open>Point2.pack\<close> at its coordinates, the packed value is a 32-bit
  integer, and \<^verbatim>\<open>TypeIO.readObject\<close> reads back its configuration value from what
  \<^verbatim>\<open>TypeIO.writeObject\<close> wrote, leaving the cursor behind it.\<close>

definition codecsRoundTrip :: "'c externals \<Rightarrow> 'c Tile \<Rightarrow> bool" where
  "codecsRoundTrip ext t =
     (unpack ext (pack ext (xpos t) (ypos t)) = (xpos t, ypos t)
      \<and> - 2147483648 \<le> pack ext (xpos t) (ypos t) \<and> pack ext (xpos t) (ypos t) < 2147483648
      \<and> (\<forall>r. readObject ext (writeObject ext (config t) @ r) = Some (config t, r)))"

text \<open>\<^verbatim>\<open>writeConfig\<close> leaves the name, the coordinates and the rotation of the tile alone, and
  \<^verbatim>\<open>readConfig\<close> undoes it.\<close>

definition configsRoundTrip :: "'c externals \<Rightarrow> 'c Tile \<Rightarrow> bool" where
  "configsRoundTrip ext t =
     (name (writeConfig ext t) = name t \<and> xpos (writeConfig ext t) = xpos t
      \<and> ypos (writeConfig ext t) = ypos t \<and> rotation (writeConfig ext t) = rotation t
      \<and> readConfig ext (writeConfig ext t) = t)"

text \<open>\<^verbatim>\<open>inflateSync\<close> inflates what \<^verbatim>\<open>deflateSync\<close> made of the data of this schematic, and
  the two conditions above hold for its tiles.\<close>

definition externalsRoundTrip :: "'c externals \<Rightarrow> 'c Schematic \<Rightarrow> bool" where
  "externalsRoundTrip ext s =
     (inflateSync ext (deflateSync ext (compressableData ext (writeConfigs ext s)))
        = Some (compressableData ext (writeConfigs ext s))
      \<and> list_all (\<lambda>t. configsRoundTrip ext t \<and> codecsRoundTrip ext (writeConfig ext t))
           (rowMajor (tiles s)))"

section \<open>Properties\<close>

subsection \<open>The byte cursor reads back what it wrote\<close>

lemma char_of_byte_of_char [simp]: "char_of_byte (byte_of_char c) = c"
  unfolding char_of_byte_def byte_of_char_def
  by (simp add: uint_word_of_int take_bit_eq_mod)

lemma map_char_of_byte [simp]: "map (char_of_byte \<circ> byte_of_char) s = s"
  by (induction s) simp_all

lemma readUInt8_write:
  "0 \<le> v \<Longrightarrow> v < 256 \<Longrightarrow> readUInt8 (writeUInt8 v @ r) = Some (v, r)"
  by (simp add: writeUInt8_def uint_word_of_int take_bit_eq_mod)

lemma readInt8_write:
  "0 \<le> v \<Longrightarrow> v < 128 \<Longrightarrow> readInt8 (writeUInt8 v @ r) = Some (v, r)"
  by (simp add: writeUInt8_def sint_sbintrunc' signed_take_bit_int_eq_self)

lemma readUInt16BE_write:
  "0 \<le> v \<Longrightarrow> v < 65536 \<Longrightarrow> readUInt16BE (writeUInt16BE v @ r) = Some (v, r)"
  by (simp add: writeUInt16BE_def uint_word_of_int take_bit_eq_mod)

lemma four_bytes:
  fixes v :: int
  shows "((v div 16777216 mod 256 * 256 + v div 65536 mod 256) * 256 + v div 256 mod 256) * 256
           + v mod 256 = v mod 4294967296"
proof -
  have a: "v mod 4294967296 = 256 * (v div 256 mod 16777216) + v mod 256"
    using zmod_zmult2_eq [of 16777216 v 256] by simp
  have d1: "v div 256 div 256 = v div 65536"
    by (simp add: zdiv_zmult2_eq [symmetric])
  have d2: "v div 65536 div 256 = v div 16777216"
    by (simp add: zdiv_zmult2_eq [symmetric])
  have b: "v div 256 mod 16777216 = 256 * (v div 65536 mod 65536) + v div 256 mod 256"
    using zmod_zmult2_eq [of 65536 "v div 256" 256] by (simp add: d1)
  have c: "v div 65536 mod 65536 = 256 * (v div 16777216 mod 256) + v div 65536 mod 256"
    using zmod_zmult2_eq [of 256 "v div 65536" 256] by (simp add: d2)
  show ?thesis
    by (subst a, subst b, subst c) (simp only: algebra_simps)
qed

lemma mod_2_32_signed:
  fixes v :: int
  assumes "- 2147483648 \<le> v" "v < 2147483648"
  shows "v mod 4294967296 = (if 0 \<le> v then v else v + 4294967296)"
proof (cases "0 \<le> v")
  case True
  then show ?thesis using assms by simp
next
  case False
  have "(v + 4294967296) mod 4294967296 = v + 4294967296"
    by (rule mod_pos_pos_trivial) (use assms False in linarith)+
  moreover have "(v + 4294967296) mod 4294967296 = v mod 4294967296"
    by (rule mod_add_self2)
  ultimately show ?thesis using False by simp
qed

lemma readInt32BE_write:
  assumes "- 2147483648 \<le> v" "v < 2147483648"
  shows "readInt32BE (writeInt32BE v @ r) = Some (v, r)"
proof -
  have "readInt32BE (writeInt32BE v @ r) =
          (let u = ((v div 16777216 mod 256 * 256 + v div 65536 mod 256) * 256
                      + v div 256 mod 256) * 256 + v mod 256
           in Some (if u < 2147483648 then u else u - 4294967296, r))"
    by (simp add: writeInt32BE_def uint_word_of_int take_bit_eq_mod Let_def)
  also have "\<dots> = Some (v, r)"
    unfolding four_bytes Let_def using assms by (simp add: mod_2_32_signed)
  finally show ?thesis .
qed

lemma readUTF8_write:
  assumes "length s < 65536"
  shows "readUTF8 (writeUTF8 s @ r) = Some (s, r)"
  using assms by (simp add: readUTF8_def writeUTF8_def readUInt16BE_write)

subsection \<open>Coordinate packing\<close>

lemma toInt32_mod: "toInt32 u mod 4294967296 = u mod 4294967296"
proof -
  have "(u mod 4294967296 - 4294967296) mod 4294967296 = u mod 4294967296"
    by (metis mod_mod_trivial minus_mod_self2)
  then show ?thesis by (simp add: toInt32_def Let_def)
qed

lemma toInt32_range: "- 2147483648 \<le> toInt32 u \<and> toInt32 u < 2147483648"
proof -
  define m where "m = u mod 4294967296"
  have "0 \<le> m" "m < 4294967296" by (simp_all add: m_def)
  then have "- 2147483648 \<le> (if m < 2147483648 then m else m - 4294967296)
             \<and> (if m < 2147483648 then m else m - 4294967296) < 2147483648"
    by auto
  then show ?thesis unfolding toInt32_def Let_def m_def .
qed

lemma unpack_pack_halves:
  "Point2_unpack ord sg (Point2_pack ord x y)
     = (read_half sg (x mod 65536), read_half sg (y mod 65536))"
proof -
  have hi: "(a mod 65536 * 65536 + b mod 65536) mod 4294967296 div 65536 = a mod 65536"
    for a b :: int
  proof -
    have "0 \<le> a mod 65536 * 65536 + b mod 65536" by simp
    moreover have "a mod 65536 < 65536" "b mod 65536 < 65536" by simp_all
    then have "a mod 65536 * 65536 + b mod 65536 < 4294967296" by linarith
    ultimately have "(a mod 65536 * 65536 + b mod 65536) mod 4294967296
                       = a mod 65536 * 65536 + b mod 65536"
      by (rule mod_pos_pos_trivial)
    then show ?thesis by simp
  qed
  have lo: "(a mod 65536 * 65536 + b mod 65536) mod 4294967296 mod 65536 = b mod 65536"
    for a b :: int
  proof -
    have "(65536::int) dvd 4294967296" by simp
    then have "(a mod 65536 * 65536 + b mod 65536) mod 4294967296 mod 65536
                 = (a mod 65536 * 65536 + b mod 65536) mod 65536"
      by (rule mod_mod_cancel)
    then show ?thesis by simp
  qed
  show ?thesis
    by (cases ord)
      (simp_all add: Point2_unpack_def Point2_pack_def pack_halves_def toInt32_mod hi lo Let_def)
qed

lemma read_half_mod:
  assumes r: "representable sg v"
  shows "read_half sg (v mod 65536) = v"
proof (cases sg)
  case Unsigned16
  with r show ?thesis by (simp add: representable_def read_half_def)
next
  case Signed16
  show ?thesis
  proof (cases "0 \<le> v")
    case True
    with r Signed16 show ?thesis by (simp add: representable_def read_half_def)
  next
    case False
    have "(v + 65536) mod 65536 = v + 65536"
      by (rule mod_pos_pos_trivial) (use r Signed16 False in \<open>simp_all add: representable_def\<close>)
    moreover have "(v + 65536) mod 65536 = v mod 65536" by (rule mod_add_self2)
    ultimately have "v mod 65536 = v + 65536" by simp
    with False r Signed16 show ?thesis by (simp add: representable_def read_half_def)
  qed
qed

lemma Point2_pack_range:
  "- 2147483648 \<le> Point2_pack ord x y \<and> Point2_pack ord x y < 2147483648"
  by (cases ord) (simp_all add: Point2_pack_def pack_halves_def toInt32_range)

text \<open>
  Claim C5.  Packing is lossless on the coordinates the format can hold: for either order of
  the axes and either reading of the halves, every pair of coordinates that fit into 16 bits
  comes back from \<open>Point2_unpack\<close> after \<open>Point2_pack\<close>.  (So \<open>Point2_pack\<close> is injective
  on these pairs.)
\<close>

theorem C5_unpack_pack:
  assumes "representable sg x" and "representable sg y"
  shows "Point2_unpack ord sg (Point2_pack ord x y) = (x, y)"
  using assms by (simp add: unpack_pack_halves read_half_mod)

text \<open>Claim C5 at the coordinate (-3, 127), with \<open>y\<close> in the high half and signed halves.\<close>

theorem C5_unpack_pack_witness:
  "representable Signed16 (- 3) \<and> representable Signed16 127
   \<and> Point2_unpack YHigh Signed16 (Point2_pack YHigh (- 3) 127) = (- 3, 127)"
  using C5_unpack_pack [of Signed16 "- 3" 127 YHigh] by (simp add: representable_def)

subsection \<open>Decoding: the checks of \<open>read\<close>\<close>

lemma readUInt16BE_nonneg: "readUInt16BE d = Some (v, r) \<Longrightarrow> 0 \<le> v"
  by (cases d rule: readUInt16BE.cases) auto

lemma readFields_dims:
  "readFields ext inputData = Done p
     \<Longrightarrow> 0 \<le> p_width p \<and> p_width p \<le> 128 \<and> 0 \<le> p_height p \<and> p_height p \<le> 128"
  unfolding readFields_def
  by (auto split: outcome.splits option.splits prod.splits if_splits dest: readUInt16BE_nonneg)

lemma readTiles_add:
  "readTiles ext bl w h (k + m) d =
     (case readTiles ext bl w h k d of
        Thrown f \<Rightarrow> Thrown f
      | Rejected e \<Rightarrow> Rejected e
      | Done (ts, d') \<Rightarrow>
          (case readTiles ext bl w h m d' of
             Thrown f \<Rightarrow> Thrown f
           | Rejected e \<Rightarrow> Rejected e
           | Done (ts', d'') \<Rightarrow> Done (ts @ ts', d'')))"
proof (induction k arbitrary: d)
  case 0
  show ?case by (simp split: outcome.splits prod.splits)
next
  case (Suc k)
  show ?case
  proof (cases "readTile ext bl w h d")
    case (Done cd)
    obtain c d' where cd: "cd = (c, d')" by (cases cd)
    show ?thesis
      using Done cd Suc.IH [of d']
      by (simp split: outcome.splits prod.splits)
  qed simp_all
qed

lemma readTile_position:
  assumes "readInt8 d = Some (i, d1)" "readInt32BE d1 = Some (q, d2)"
    "readObject ext d2 = Some (cfg, d3)" "readInt8 d3 = Some (rot, d4)"
    "rot \<in> {0, 1, 2, 3}" "unpack ext q = (x, y)" "w \<le> x \<or> h \<le> y"
  shows "readTile ext bl w h d = Rejected (InvalidPosition x y w h)"
  using assms by (auto simp: readTile_def Let_def)

text \<open>
  The upper bounds are checked.  Take a tile record that the loop of \<open>read\<close> reaches (the
  \<open>k\<close> records before it were read without a return or a fault), whose four fields can be
  read, whose rotation is 0, 1, 2 or 3, and whose unpacked coordinate has \<open>x\<close> at or above
  the width or \<open>y\<close> at or above the height.  Then \<open>read\<close> returns the out-of-bounds string,
  with the coordinate and the size.
\<close>

lemma upper_bounds_rejected:
  assumes fields: "readFields ext inputData = Done p"
    and count: "p_numTiles p \<le> p_width p * p_height p"
    and k: "int k < p_numTiles p"
    and before: "readTiles ext (p_blocks p) (p_width p) (p_height p) k (p_rest p) = Done (ts, d)"
    and rec: "readInt8 d = Some (i, d1)" "readInt32BE d1 = Some (q, d2)"
      "readObject ext d2 = Some (cfg, d3)" "readInt8 d3 = Some (rot, d4)"
    and rot: "rot \<in> {0, 1, 2, 3}"
    and pos: "unpack ext q = (x, y)" "p_width p \<le> x \<or> p_height p \<le> y"
  shows "read ext inputData = Rejected (InvalidPosition x y (p_width p) (p_height p))"
proof -
  have "k < nat (p_numTiles p)" using k by linarith
  then obtain m where "nat (p_numTiles p) = Suc (k + m)"
    by (auto dest: less_imp_Suc_add)
  then have m: "nat (p_numTiles p) = k + Suc m" by simp
  have one: "readTile ext (p_blocks p) (p_width p) (p_height p) d
               = Rejected (InvalidPosition x y (p_width p) (p_height p))"
    using rec rot pos by (rule readTile_position)
  have "readTiles ext (p_blocks p) (p_width p) (p_height p) (k + Suc m) (p_rest p)
          = Rejected (InvalidPosition x y (p_width p) (p_height p))"
    by (simp only: readTiles_add before one readTiles.simps outcome.case prod.case)
  then have "readTiles ext (p_blocks p) (p_width p) (p_height p) (nat (p_numTiles p)) (p_rest p)
          = Rejected (InvalidPosition x y (p_width p) (p_height p))"
    by (simp only: m)
  moreover have "\<not> p_numTiles p < 0" using k by simp
  ultimately show ?thesis using fields count by (simp add: read_def)
qed

text \<open>
  The lower bounds are not: the test of \<open>read\<close> is \<^verbatim>\<open>!(x < width && y < height)\<close>, so a
  record with a negative coordinate below the width and the height is accepted, whatever the
  parameters are, and becomes a tile at that coordinate.
\<close>

lemma readTile_accepts_negative:
  assumes "readInt8 d = Some (i, d1)" "readInt32BE d1 = Some (q, d2)"
    "readObject ext d2 = Some (cfg, d3)" "readInt8 d3 = Some (rot, d4)"
    "rot \<in> {0, 1, 2, 3}" "unpack ext q = (x, y)" "x < 0 \<or> y < 0" "x < w" "y < h"
    "blockAt bl i = Some b" "b \<noteq> []" "b \<noteq> ''air''"
  shows "readTile ext bl w h d
           = Done (Some \<lparr>name = b, xpos = x, ypos = y, config = cfg, rotation = rot\<rparr>, d4)"
  using assms by (auto simp: readTile_def Let_def)

text \<open>The sibling check in \<^verbatim>\<open>sortTiles\<close> has both bounds, and throws for such a tile.\<close>

lemma sortTiles_negative_throws:
  assumes "xpos t < 0 \<or> ypos t < 0" "0 \<le> w" "w \<le> 128" "h \<le> 128"
  shows "sortTiles (Some t # ts) w h = Inl (PositionFailure (xpos t) (ypos t) w h)"
  using assms by (auto simp: sortTiles_def emptyGrid_def)


text \<open>With a \<^verbatim>\<open>Point2.unpack\<close> that reads the halves as unsigned numbers no coordinate is
  negative, and the same file is rejected for its coordinate (65535, 0).\<close>

lemma unsigned_coordinate_rejected:
  "read sample (oneTileFile ''copper-wall'' (- 1) 0 0) = Rejected (InvalidPosition 65535 0 1 1)"
  by code_simp

text \<open>
  Claim C3, as stated, fails: \<open>read\<close> has no handler around \<^verbatim>\<open>zlib.inflateSync\<close>.  On the magic
  bytes, the version 1 and two bytes that are no zlib stream, the call throws and \<open>read\<close>
  returns nothing.
\<close>

theorem C3_no_corrupt_payload_result_counterexample:
  "inflateSync sample [255, 255] = None
   \<and> read sample (map byte_of_char ''msch'' @ [1, 255, 255]) = Thrown ZlibError"
  by code_simp

text \<open>
  Claim C3, amended.  For every input that consists of the magic bytes, the version byte 1 and
  bytes on which \<^verbatim>\<open>inflateSync\<close> throws, \<open>read\<close> does not return an error value: what
  \<^verbatim>\<open>inflateSync\<close> threw leaves \<open>read\<close>.
\<close>

theorem C3_inflate_fault_propagates:
  assumes "inflateSync ext z = None"
  shows "read ext (map byte_of_char ''msch'' @ [1] @ z) = Thrown ZlibError"
  using assms by (simp add: read_def readFields_def headerBytes_def byte_of_char_def)

text \<open>Claim C3, amended, at an input whose compressed section is empty.\<close>

theorem C3_inflate_fault_propagates_witness:
  "inflateSync sample [] = None
   \<and> read sample (map byte_of_char ''msch'' @ [1] @ []) = Thrown ZlibError"
proof -
  have h: "inflateSync sample [] = None" by code_simp
  show ?thesis using C3_inflate_fault_propagates [OF h] h by simp
qed

text \<open>
  Claim C4 does not hold of the code.  A record whose block is \<^verbatim>\<open>air\<close> is skipped by
  \<^verbatim>\<open>continue\<close>, which leaves a hole in the array \<^verbatim>\<open>tiles\<close>; the constructor then runs
  \<^verbatim>\<open>sortTiles\<close> over that array, and \<^verbatim>\<open>tile.x\<close> on the hole throws.  The file is a 1x1
  schematic whose only record names the block \<^verbatim>\<open>air\<close> at (0, 0).
\<close>

theorem C4_air_record_throws:
  "oneTileFile ''air'' 0 0 0 =
     [109, 115, 99, 104, 1, 120, 1, 1, 22, 0, 233, 255, 0, 1, 0, 1, 0, 1, 0, 3, 97, 105, 114,
      0, 0, 0, 1, 0, 0, 0, 0, 0, 0, 0, 16, 127, 1, 68]
   \<and> readTiles sample [''air''] 1 1 1 [0, 0, 0, 0, 0, 0, 0] = Done ([None], [])
   \<and> read sample (oneTileFile ''air'' 0 0 0) = Thrown UndefinedAccess"
  by code_simp

text \<open>
  Claim C6.  When the fields before the tile loop have been read and the declared tile count
  is greater than width times height, \<open>read\<close> returns the too-many-tiles string, which names
  that product and the count.
\<close>

theorem C6_too_many_tiles:
  assumes "readFields ext inputData = Done p"
    and "p_numTiles p > p_width p * p_height p"
  shows "read ext inputData = Rejected (TooManyTiles (p_width p * p_height p) (p_numTiles p))"
proof -
  have "0 \<le> p_width p * p_height p"
    using readFields_dims [OF assms(1)] by simp
  with assms show ?thesis by (simp add: read_def)
qed

text \<open>Claim C6 at a 1x1 file that declares two tiles.\<close>

theorem C6_too_many_tiles_witness:
  "readFields sample tooManyFile =
     Done \<lparr>p_width = 1, p_height = 1, p_version = 1, p_tags = [], p_labels = JArray [],
            p_blocks = [], p_numTiles = 2, p_rest = []\<rparr>
   \<and> read sample tooManyFile = Rejected (TooManyTiles 1 2)"
proof -
  have f: "readFields sample tooManyFile =
     Done \<lparr>p_width = 1, p_height = 1, p_version = 1, p_tags = [], p_labels = JArray [],
            p_blocks = [], p_numTiles = 2, p_rest = []\<rparr>"
    by code_simp
  show ?thesis using C6_too_many_tiles [OF f] f by simp
qed

text \<open>
  Claim C8 does not hold of the code.  The value of the \<^verbatim>\<open>labels\<close> tag of this file is the
  text \<^verbatim>\<open>5\<close>, which \<^verbatim>\<open>JSON.parse\<close> accepts; \<open>read\<close> succeeds and the field \<open>labels\<close> of the
  result is the number 5, neither a list of strings nor the empty list.
\<close>

theorem C8_labels_not_a_list:
  "labelsFile =
     [109, 115, 99, 104, 1, 120, 1, 1, 21, 0, 234, 255, 0, 0, 0, 0, 1, 0, 6, 108, 97, 98, 101,
      108, 115, 0, 1, 53, 0, 0, 0, 0, 0, 29, 204, 2, 177]
   \<and> read sample labelsFile =
       Done \<lparr>height = 0, width = 0, version = 1, tags = [(''labels'', ''5'')],
              labels = JNumber 5, tiles = []\<rparr>"
  by code_simp

subsection \<open>Encoding: the order of the tiles and the table of names\<close>

lemma cells_concat: "map the (filter (\<lambda>c. c \<noteq> None) cs) = concat (map (\<lambda>c. case c of None \<Rightarrow> [] | Some t \<Rightarrow> [t]) cs)"
  by (induction cs) (auto split: option.splits)

lemma unsortTiles_rowMajor: "unsortTiles g = rowMajor g"
proof -
  have row: "concat (map (\<lambda>x. case r ! x of None \<Rightarrow> [] | Some t \<Rightarrow> [t]) [0..<length r])
               = map the (filter (\<lambda>c. c \<noteq> None) r)" for r :: "'a Tile option list"
  proof -
    have "map (\<lambda>x. case r ! x of None \<Rightarrow> [] | Some t \<Rightarrow> [t]) [0..<length r]
            = map (\<lambda>c. case c of None \<Rightarrow> [] | Some t \<Rightarrow> [t]) (map (\<lambda>x. r ! x) [0..<length r])"
      by simp
    also have "\<dots> = map (\<lambda>c. case c of None \<Rightarrow> [] | Some t \<Rightarrow> [t]) r"
      by (simp only: map_nth)
    finally show ?thesis by (simp only: cells_concat)
  qed
  have "rowMajor g = concat (map (\<lambda>r. map the (filter (\<lambda>c. c \<noteq> None) r)) (map (\<lambda>y. g ! y) [0..<length g]))"
    by (simp add: rowMajor_def row comp_def)
  also have "\<dots> = concat (map (\<lambda>r. map the (filter (\<lambda>c. c \<noteq> None) r)) g)"
    by (simp only: map_nth)
  also have "\<dots> = unsortTiles g"
    by (induction g) (simp_all add: unsortTiles_def)
  finally show ?thesis by simp
qed

lemma namesAfter_prefix: "\<exists>extra. namesAfter ns ts = ns @ extra"
  by (induction ts arbitrary: ns) (auto, metis append.assoc)

lemma idOf_append: "n \<in> set ns \<Longrightarrow> idOf (ns @ extra) n = idOf ns n"
  by (induction ns) auto

lemma idOf_new: "n \<notin> set ns \<Longrightarrow> idOf (ns @ n # extra) n = length ns"
  by (induction ns) auto

lemma map_of_zip_from:
  "map_of (zip ns [k..<k + length ns]) n = (if n \<in> set ns then Some (k + idOf ns n) else None)"
proof (induction ns arbitrary: k)
  case Nil
  show ?case by simp
next
  case (Cons m ms)
  have "[k..<k + length (m # ms)] = k # [Suc k..<Suc k + length ms]"
    by (subst upt_rec) simp
  then show ?case using Cons.IH [of "Suc k"] by auto
qed

lemma map_of_numbered:
  "map_of (numbered ns) n = (if n \<in> set ns then Some (idOf ns n) else None)"
  using map_of_zip_from [of ns 0 n] by (simp add: numbered_def)

lemma numbered_snoc: "numbered ns @ [(n, length ns)] = numbered (ns @ [n])"
  by (simp add: numbered_def)

lemma blockMapLoop_numbered:
  "blockMapLoop (numbered ns) ts
     = (numbered (namesAfter ns ts), map (\<lambda>t. (t, idOf (namesAfter ns ts) (name t))) ts)"
proof (induction ts arbitrary: ns)
  case Nil
  show ?case by simp
next
  case (Cons t ts)
  show ?case
  proof (cases "name t \<in> set ns")
    case True
    obtain extra where extra: "namesAfter ns ts = ns @ extra"
      using namesAfter_prefix by blast
    have "idOf (namesAfter ns ts) (name t) = idOf ns (name t)"
      using True by (simp add: extra idOf_append)
    then show ?thesis using True Cons.IH [of ns] by (simp add: map_of_numbered)
  next
    case False
    obtain extra where extra: "namesAfter (ns @ [name t]) ts = (ns @ [name t]) @ extra"
      using namesAfter_prefix by blast
    have "idOf (namesAfter (ns @ [name t]) ts) (name t) = length ns"
      using False by (simp add: extra idOf_new)
    moreover have "length (numbered ns) = length ns" by (simp add: numbered_def)
    ultimately show ?thesis
      using False Cons.IH [of "ns @ [name t]"]
      by (simp add: map_of_numbered numbered_snoc Let_def)
  qed
qed

lemma namesAfter_firstAppearance:
  "namesAfter ns ts = ns @ filter (\<lambda>n. n \<notin> set ns) (firstAppearance (map name ts))"
proof (induction ts arbitrary: ns)
  case Nil
  show ?case by simp
next
  case (Cons t ts)
  show ?case
  proof (cases "name t \<in> set ns")
    case True
    have "filter (\<lambda>n. n \<notin> set ns) (filter (\<lambda>m. m \<noteq> name t) xs) = filter (\<lambda>n. n \<notin> set ns) xs" for xs
      using True by (induction xs) auto
    then show ?thesis using True Cons.IH [of ns] by simp
  next
    case False
    have "filter (\<lambda>n. n \<notin> set (ns @ [name t])) xs = filter (\<lambda>n. n \<notin> set ns) (filter (\<lambda>m. m \<noteq> name t) xs)" for xs
      by (induction xs) auto
    then show ?thesis using False Cons.IH [of "ns @ [name t]"] by simp
  qed
qed

lemma getBlockMap_eq:
  "getBlockMap ts = (firstAppearance (map name ts),
                     map (\<lambda>t. (t, idOf (firstAppearance (map name ts)) (name t))) ts)"
proof -
  have n: "numbered [] = []" by (simp add: numbered_def)
  have "map fst (numbered xs) = xs" for xs by (simp add: numbered_def)
  moreover have "namesAfter [] ts = firstAppearance (map name ts)"
    by (simp add: namesAfter_firstAppearance)
  ultimately show ?thesis
    using blockMapLoop_numbered [of "[]" ts] by (simp add: getBlockMap_def n)
qed


lemma set_firstAppearance: "set (firstAppearance ns) = set ns"
  by (induction ns) auto

lemma compressableData_eq:
  "compressableData ext s =
     writeUInt16BE (width s) @ writeUInt16BE (height s)
     @ writeUInt8 (int (length (tags s)))
     @ concat (map (\<lambda>kv. writeUTF8 (fst kv) @ writeUTF8 (snd kv)) (tags s))
     @ writeUInt8 (int (length (firstAppearance (map name (rowMajor (tiles s))))))
     @ concat (map writeUTF8 (firstAppearance (map name (rowMajor (tiles s)))))
     @ writeInt32BE (int (length (rowMajor (tiles s))))
     @ concat (map (\<lambda>t. tileBytes ext (t, idOf (firstAppearance (map name (rowMajor (tiles s)))) (name t)))
                 (rowMajor (tiles s)))"
  by (simp add: compressableData_def getBlockMap_eq unsortTiles_rowMajor comp_def)

lemma rowMajor_grid_map: "rowMajor (map (map (map_option f)) g) = map f (rowMajor g)"
proof -
  have row: "map the (filter (\<lambda>c. \<exists>y. c = Some y) (map (map_option f) r))
               = map (f \<circ> the) (filter (\<lambda>c. \<exists>y. c = Some y) r)" for r
    by (induction r) auto
  have "unsortTiles (map (map (map_option f)) g) = map f (unsortTiles g)"
    unfolding unsortTiles_def by (induction g) (simp_all add: row)
  then show ?thesis by (simp only: unsortTiles_rowMajor)
qed


lemma idOf_nth: "n \<in> set ns \<Longrightarrow> idOf ns n < length ns \<and> ns ! idOf ns n = n"
  by (induction ns) auto



subsection \<open>The grid and the accessors\<close>

lemma gridShape_iff:
  "gridShape w h g \<longleftrightarrow> length g = nat h \<and> (\<forall>i < length g. length (g ! i) = nat w)"
  by (simp add: gridShape_def list_all_length)

lemma emptyGrid_shape: "emptyGrid w h = Inr g \<Longrightarrow> gridShape w h g"
  by (auto simp: emptyGrid_def gridShape_iff split: if_splits)

lemma gridShape_update:
  assumes "gridShape w h g"
  shows "gridShape w h (g[i := (g ! i)[j := c]])"
  using assms by (cases "i < length g") (auto simp: gridShape_iff nth_list_update)

lemma placeTiles_shape:
  "placeTiles ts w h g = Inr g' \<Longrightarrow> gridShape w h g \<Longrightarrow> gridShape w h g'"
proof (induction ts w h g rule: placeTiles.induct)
  case (1 w h g)
  then show ?case by simp
next
  case (2 ts w h g)
  then show ?case by simp
next
  case (3 t ts w h g)
  then show ?case by (auto split: if_splits intro: gridShape_update)
qed

lemma sortTiles_shape: "sortTiles ts w h = Inr g \<Longrightarrow> gridShape w h g"
  by (auto simp: sortTiles_def split: sum.splits dest: emptyGrid_shape placeTiles_shape)

lemma gridShape_map: "gridShape w h (map (map f) g) = gridShape w h g"
  by (simp add: gridShape_iff)

lemma Schematic_new_fields:
  assumes "Schematic_new ext h w v tgs lbls ts = Inr s"
  shows "height s = h \<and> width s = w \<and> version s = v \<and> tags s = tgs \<and> labels s = lbls
         \<and> gridShape w h (tiles s)"
  using assms
  by (auto simp: Schematic_new_def readConfigs_def gridShape_map split: sum.splits
      dest: sortTiles_shape)

lemma objectsOf_slot:
  assumes "gridShape w h (tiles s)" "width s = w" "0 \<le> y" "y < h"
  shows "slot (o_rows (objectsOf s) ! nat y) x =
           (if 0 \<le> x \<and> x < w
            then (case tiles s ! nat y ! nat x of
                    None \<Rightarrow> Null
                  | Some t \<Rightarrow> Ref (nat y * nat w + nat x))
            else Undefined)"
proof -
  have y: "nat y < length (tiles s)" using assms by (simp add: gridShape_iff)
  then have len: "length (tiles s ! nat y) = nat w"
    using assms(1) by (simp add: gridShape_iff)
  have "o_rows (objectsOf s) ! nat y
          = rowObjects (nat y * nat w) (nat w) (tiles s ! nat y)"
    using y assms(2) by (simp add: objectsOf_def nth_enumerate_eq)
  then show ?thesis using len by (auto simp: rowObjects_def)
qed

lemma Schematic_new_oneCell: "Schematic_new sample 1 1 1 [] (JArray []) [Some (wall ''copper-wall'' 0 0)]
     = Inr (oneCell (Some (wall ''copper-wall'' 0 0)))"
  by code_simp

lemma oneCell_invariant: "tileInvariant (withTile (objectsOf (oneCell None)) 1 (wall ''copper-wall'' 0 0))"
  by (auto simp: tileInvariant_def misplaced_def withTile_def objectsOf_def oneCell_def rowObjects_def enumerate_eq_zip)

text \<open>
  Claim C9 does not hold of the code.  \<open>setTileAt\<close> does not compare \<open>x\<close> with the width: on a
  1x1 schematic, \<open>setTileAt 1 0\<close> with a new tile returns normally, the row grows to two
  slots, and the new slot holds a tile whose coordinate \<open>x = 1\<close> is not below the width 1.  The
  invariant held before the call and is broken after it.
\<close>

theorem C9_setTileAt_out_of_bounds:
  "Schematic_new sample 1 1 1 [] (JArray []) [] = Inr (oneCell None)
   \<and> tileInvariant (withTile (objectsOf (oneCell None)) 1 (wall ''copper-wall'' 0 0))
   \<and> snd (setTileAt (withTile (objectsOf (oneCell None)) 1 (wall ''copper-wall'' 0 0)) 1 0 1) = None
   \<and> misplaced (fst (setTileAt (withTile (objectsOf (oneCell None)) 1 (wall ''copper-wall'' 0 0)) 1 0 1)) 1 0 1
   \<and> \<not> tileInvariant (fst (setTileAt (withTile (objectsOf (oneCell None)) 1 (wall ''copper-wall'' 0 0)) 1 0 1))"
proof -
  let ?st = "withTile (objectsOf (oneCell None)) 1 (wall ''copper-wall'' 0 0)"
  have a: "Schematic_new sample 1 1 1 [] (JArray []) [] = Inr (oneCell None)" by code_simp
  have b: "snd (setTileAt ?st 1 0 1) = None"
    by (simp add: setTileAt_def Let_def objectsOf_def oneCell_def withTile_def)
  have c: "misplaced (fst (setTileAt ?st 1 0 1)) 1 0 1"
    by (simp add: misplaced_def setTileAt_def Let_def objectsOf_def oneCell_def withTile_def
        arraySet_def wall_def)
  then have d: "\<not> tileInvariant (fst (setTileAt ?st 1 0 1))"
    unfolding tileInvariant_def by blast
  from a oneCell_invariant b c d show ?thesis by blast
qed

text \<open>
  What \<open>getTileAt\<close> does on a schematic as the constructor leaves it: it returns without a
  fault exactly when \<open>y\<close> is the index of a row, \<open>0 \<le> y < height\<close>; it then returns the tile
  of the cell, \<^verbatim>\<open>null\<close> for an empty cell, and \<^verbatim>\<open>undefined\<close> when \<open>x\<close> is outside
  \<open>[0, width)\<close>.  For any other \<open>y\<close> it throws.
\<close>

lemma getTileAt_new:
  assumes "Schematic_new ext h w v tgs lbls ts = Inr s"
  shows "getTileAt (objectsOf s) x y =
           (if 0 \<le> y \<and> y < h
            then Inr (if 0 \<le> x \<and> x < w
                      then (case tiles s ! nat y ! nat x of
                              None \<Rightarrow> Null
                            | Some t \<Rightarrow> Ref (nat y * nat w + nat x))
                      else Undefined)
            else Inl UndefinedAccess)"
proof -
  have f: "height s = h" "width s = w" "gridShape w h (tiles s)"
    using Schematic_new_fields [OF assms] by simp_all
  have rows: "length (o_rows (objectsOf s)) = nat h"
    using f by (simp add: objectsOf_def gridShape_iff)
  show ?thesis
  proof (cases "0 \<le> y \<and> y < h")
    case True
    then have "getTileAt (objectsOf s) x y = Inr (slot (o_rows (objectsOf s) ! nat y) x)"
      using rows by (simp add: getTileAt_def)
    then show ?thesis using True objectsOf_slot [OF f(3) f(2), of y x] by simp
  next
    case False
    then show ?thesis using rows by (auto simp: getTileAt_def)
  qed
qed

text \<open>
  Claim C10 does not hold of the code, and neither does the comment of the method, which
  promises \<^verbatim>\<open>@returns { Tile | null } The tile found, or null\<close>.  \<open>getTileAt\<close> indexes the row
  before the column and has no check: on the 1x1 schematic that the constructor builds from
  one tile at (0, 0), \<open>getTileAt 0 1\<close> and \<open>getTileAt 0 (- 1)\<close> throw, there being no such row,
  and \<open>getTileAt 1 0\<close> and \<open>getTileAt (- 1) 0\<close> return \<^verbatim>\<open>undefined\<close>, which is neither a tile
  nor \<^verbatim>\<open>null\<close>.  Inside the grid, \<open>getTileAt 0 0\<close> returns the tile.
\<close>

theorem C10_getTileAt_outside_grid:
  "Schematic_new sample 1 1 1 [] (JArray []) [Some (wall ''copper-wall'' 0 0)]
     = Inr (oneCell (Some (wall ''copper-wall'' 0 0)))
   \<and> getTileAt (objectsOf (oneCell (Some (wall ''copper-wall'' 0 0)))) 0 0 = Inr (Ref 0)
   \<and> getTileAt (objectsOf (oneCell (Some (wall ''copper-wall'' 0 0)))) 0 1 = Inl UndefinedAccess
   \<and> getTileAt (objectsOf (oneCell (Some (wall ''copper-wall'' 0 0)))) 0 (- 1) = Inl UndefinedAccess
   \<and> getTileAt (objectsOf (oneCell (Some (wall ''copper-wall'' 0 0)))) 1 0 = Inr Undefined
   \<and> getTileAt (objectsOf (oneCell (Some (wall ''copper-wall'' 0 0)))) (- 1) 0 = Inr Undefined"
  by code_simp

subsection \<open>The round trip\<close>

lemma gridShape_place: "gridShape w h g \<Longrightarrow> gridShape w h (place g t)"
  unfolding place_def by (rule gridShape_update)

lemma placeTiles_foldl:
  "list_all (inBounds w h) ts \<Longrightarrow> placeTiles (map Some ts) w h g = Inr (foldl place g ts)"
  by (induction ts arbitrary: g) (simp_all add: inBounds_def place_def)

lemma place_cell:
  assumes "gridShape w h g" "inBounds w h t" "i < nat h" "j < nat w"
  shows "place g t ! i ! j = (if nat (ypos t) = i \<and> nat (xpos t) = j then Some t else g ! i ! j)"
proof -
  have y: "nat (ypos t) < length g" and x: "nat (xpos t) < length (g ! nat (ypos t))"
    using assms by (auto simp: gridShape_iff inBounds_def)
  show ?thesis
  proof (cases "nat (ypos t) = i")
    case True
    then show ?thesis using y x by (auto simp: place_def nth_list_update)
  next
    case False
    then show ?thesis by (simp add: place_def)
  qed
qed

lemma foldl_place_cell:
  assumes "gridShape w h g0" "list_all (inBounds w h) ts" "i < nat h" "j < nat w"
    and "\<forall>t \<in> set ts. nat (ypos t) = i \<and> nat (xpos t) = j \<longrightarrow> c = Some t"
  shows "foldl place g0 ts ! i ! j =
           (if \<exists>t \<in> set ts. nat (ypos t) = i \<and> nat (xpos t) = j then c else g0 ! i ! j)"
  using assms
proof (induction ts arbitrary: g0)
  case Nil
  then show ?case by simp
next
  case (Cons t ts)
  have s: "gridShape w h (place g0 t)" using Cons.prems(1) by (rule gridShape_place)
  have b: "inBounds w h t" "list_all (inBounds w h) ts" using Cons.prems(2) by simp_all
  have c: "\<forall>t \<in> set ts. nat (ypos t) = i \<and> nat (xpos t) = j \<longrightarrow> c = Some t"
    using Cons.prems(5) by simp
  have "foldl place (place g0 t) ts ! i ! j =
          (if \<exists>t \<in> set ts. nat (ypos t) = i \<and> nat (xpos t) = j then c else place g0 t ! i ! j)"
    by (rule Cons.IH [OF s b(2) Cons.prems(3) Cons.prems(4) c])
  moreover have "place g0 t ! i ! j
                   = (if nat (ypos t) = i \<and> nat (xpos t) = j then Some t else g0 ! i ! j)"
    by (rule place_cell [OF Cons.prems(1) b(1) Cons.prems(3) Cons.prems(4)])
  ultimately show ?case using Cons.prems(5) by auto
qed

lemma gridShape_foldl_place: "gridShape w h g \<Longrightarrow> gridShape w h (foldl place g ts)"
  by (induction ts arbitrary: g) (simp_all add: gridShape_place)

lemma cellsAtHome_iff:
  "cellsAtHome g \<longleftrightarrow>
     (\<forall>i < length g. \<forall>j < length (g ! i). \<forall>t. g ! i ! j = Some t \<longrightarrow> xpos t = int j \<and> ypos t = int i)"
  by (auto simp: cellsAtHome_def list_all_length nth_enumerate_eq split: option.splits)

lemma in_set_rowMajor:
  "t \<in> set (rowMajor g) \<longleftrightarrow> (\<exists>i < length g. \<exists>j < length (g ! i). g ! i ! j = Some t)"
proof
  assume "t \<in> set (rowMajor g)"
  then obtain i j where "i < length g" "j < length (g ! i)"
    "t \<in> set (case g ! i ! j of None \<Rightarrow> [] | Some u \<Rightarrow> [u])"
    by (auto simp: rowMajor_def)
  then show "\<exists>i < length g. \<exists>j < length (g ! i). g ! i ! j = Some t"
    by (cases "g ! i ! j") auto
next
  assume "\<exists>i < length g. \<exists>j < length (g ! i). g ! i ! j = Some t"
  then obtain i j where "i < length g" "j < length (g ! i)" "g ! i ! j = Some t" by blast
  then show "t \<in> set (rowMajor g)"
    by (force simp: rowMajor_def)
qed

lemma grid_eqI:
  assumes "gridShape w h a" "gridShape w h b"
    and "\<And>i j. i < nat h \<Longrightarrow> j < nat w \<Longrightarrow> a ! i ! j = b ! i ! j"
  shows "a = b"
proof (rule nth_equalityI)
  show "length a = length b" using assms(1,2) by (simp add: gridShape_iff)
next
  fix i assume i: "i < length a"
  then have ih: "i < nat h" using assms(1) by (simp add: gridShape_iff)
  have la: "length (a ! i) = nat w" using assms(1) i by (simp add: gridShape_iff)
  have lb: "length (b ! i) = nat w" using assms(2) ih by (simp add: gridShape_iff)
  show "a ! i = b ! i"
  proof (rule nth_equalityI)
    show "length (a ! i) = length (b ! i)" using la lb by simp
  next
    fix j assume "j < length (a ! i)"
    then have "j < nat w" using la by simp
    then show "a ! i ! j = b ! i ! j" using ih by (rule assms(3) [rotated])
  qed
qed

lemma rowMajor_inBounds:
  assumes "gridShape w h g" "cellsAtHome g"
  shows "list_all (inBounds w h) (rowMajor g)"
proof -
  have "inBounds w h t" if "t \<in> set (rowMajor g)" for t
  proof -
    from that obtain i j where ij: "i < length g" "j < length (g ! i)" "g ! i ! j = Some t"
      by (auto simp: in_set_rowMajor)
    then have "xpos t = int j" "ypos t = int i"
      using assms(2) by (auto simp: cellsAtHome_iff)
    moreover have "i < nat h" "j < nat w" using ij assms(1) by (auto simp: gridShape_iff)
    ultimately show ?thesis by (auto simp: inBounds_def)
  qed
  then show ?thesis by (simp add: list_all_iff)
qed

lemma sortTiles_rowMajor:
  assumes shape: "gridShape w h g" and home: "cellsAtHome g"
    and w: "0 \<le> w" "w \<le> 4294967295" "h \<le> 4294967295"
  shows "sortTiles (map Some (rowMajor g)) w h = Inr g"
proof -
  let ?g0 = "replicate (nat h) (replicate (nat w) None) :: 'a Tile option list list"
  have e: "emptyGrid w h = Inr ?g0" using w by (simp add: emptyGrid_def)
  have s0: "gridShape w h ?g0" using e by (rule emptyGrid_shape)
  have b: "list_all (inBounds w h) (rowMajor g)" using shape home by (rule rowMajor_inBounds)
  have "foldl place ?g0 (rowMajor g) = g"
  proof (rule grid_eqI [OF gridShape_foldl_place [OF s0] shape])
    fix i j assume i: "i < nat h" and j: "j < nat w"
    have len: "i < length g" "j < length (g ! i)" using i j shape by (auto simp: gridShape_iff)
    have c: "\<forall>t \<in> set (rowMajor g). nat (ypos t) = i \<and> nat (xpos t) = j \<longrightarrow> g ! i ! j = Some t"
    proof (intro ballI impI)
      fix t assume t: "t \<in> set (rowMajor g)" and at: "nat (ypos t) = i \<and> nat (xpos t) = j"
      from t obtain i' j' where ij: "i' < length g" "j' < length (g ! i')" "g ! i' ! j' = Some t"
        by (auto simp: in_set_rowMajor)
      then have "xpos t = int j'" "ypos t = int i'"
        using home by (auto simp: cellsAtHome_iff)
      with at have "i' = i" "j' = j" by simp_all
      with ij show "g ! i ! j = Some t" by simp
    qed
    have cell: "foldl place ?g0 (rowMajor g) ! i ! j =
            (if \<exists>t \<in> set (rowMajor g). nat (ypos t) = i \<and> nat (xpos t) = j then g ! i ! j
             else ?g0 ! i ! j)"
      by (rule foldl_place_cell [OF s0 b i j c])
    show "foldl place ?g0 (rowMajor g) ! i ! j = g ! i ! j"
    proof (cases "g ! i ! j")
      case None
      have "\<not> (\<exists>t \<in> set (rowMajor g). nat (ypos t) = i \<and> nat (xpos t) = j)"
        using c None by auto
      then show ?thesis using cell None i j by simp
    next
      case (Some t)
      then have "t \<in> set (rowMajor g)" using len by (auto simp: in_set_rowMajor)
      moreover have "xpos t = int j" "ypos t = int i"
        using home len Some by (auto simp: cellsAtHome_iff)
      ultimately have "\<exists>t \<in> set (rowMajor g). nat (ypos t) = i \<and> nat (xpos t) = j"
        by (intro bexI [of _ t]) simp_all
      then show ?thesis using cell by simp
    qed
  qed
  then show ?thesis using e b by (simp add: sortTiles_def placeTiles_foldl)
qed

lemma checkHeader_write:
  "checkHeader headerBytes (concat (map writeUInt8 headerBytes) @ r) = Done r"
  by (simp add: headerBytes_def writeUInt8_def)

lemma entriesOrder_before:
  "entriesOrder (ks @ k # ks') \<Longrightarrow> isArrayIndex k
     \<Longrightarrow> \<forall>k' \<in> set ks. isArrayIndex k' \<and> decimal k' < decimal k"
proof (induction ks)
  case Nil
  then show ?case by simp
next
  case (Cons a ks)
  then show ?case by (cases "isArrayIndex a") (auto simp: list_all_iff)
qed

lemma objectSet_next:
  assumes "k \<noteq> ''__proto__''" "k \<notin> set (map fst acc)"
    and "entriesOrder (map fst acc @ k # ks)"
  shows "objectSet k v acc = acc @ [(k, v)]"
proof (cases "isArrayIndex k")
  case True
  have "\<forall>k' \<in> set (map fst acc). isArrayIndex k' \<and> decimal k' < decimal k"
    using assms(3) True by (rule entriesOrder_before)
  then have all: "\<forall>e \<in> set acc. isArrayIndex (fst e) \<and> decimal (fst e) < decimal k"
    by simp
  have "takeWhile (\<lambda>e. isArrayIndex (fst e) \<and> decimal (fst e) < decimal k) acc = acc"
    using all by (simp add: takeWhile_eq_all_conv)
  moreover have "dropWhile (\<lambda>e. isArrayIndex (fst e) \<and> decimal (fst e) < decimal k) acc = []"
    using all by (simp add: dropWhile_eq_Nil_conv)
  ultimately show ?thesis
    using assms(1,2) True by (simp add: objectSet_def)
next
  case False
  then show ?thesis using assms(1,2) by (simp add: objectSet_def)
qed

lemma readTags_write:
  assumes "list_all (\<lambda>kv. length (fst kv) < 65536 \<and> length (snd kv) < 65536) tgs"
    and "distinct (map fst (acc @ tgs))"
    and "entriesOrder (map fst (acc @ tgs))"
    and "''__proto__'' \<notin> set (map fst tgs)"
  shows "readTags (length tgs) acc
           (concat (map (\<lambda>kv. writeUTF8 (fst kv) @ writeUTF8 (snd kv)) tgs) @ r)
         = Some (acc @ tgs, r)"
  using assms
proof (induction tgs arbitrary: acc)
  case Nil
  then show ?case by simp
next
  case (Cons kv tgs)
  obtain k v where kv: "kv = (k, v)" by (cases kv)
  have len: "length k < 65536" "length v < 65536"
    and rest: "list_all (\<lambda>kv. length (fst kv) < 65536 \<and> length (snd kv) < 65536) tgs"
    using Cons.prems(1) kv by simp_all
  have fresh: "k \<notin> set (map fst acc)" using Cons.prems(2) kv by auto
  have d: "distinct (map fst ((acc @ [(k, v)]) @ tgs))" using Cons.prems(2) kv by simp
  have o: "entriesOrder (map fst ((acc @ [(k, v)]) @ tgs))" using Cons.prems(3) kv by simp
  have p: "k \<noteq> ''__proto__''" "''__proto__'' \<notin> set (map fst tgs)"
    using Cons.prems(4) kv by auto
  have "entriesOrder (map fst acc @ k # map fst tgs)" using Cons.prems(3) kv by simp
  with p(1) fresh have set: "objectSet k v acc = acc @ [(k, v)]" by (rule objectSet_next)
  have "readTags (length tgs) (acc @ [(k, v)])
          (concat (map (\<lambda>kv. writeUTF8 (fst kv) @ writeUTF8 (snd kv)) tgs) @ r)
        = Some ((acc @ [(k, v)]) @ tgs, r)"
    by (rule Cons.IH [OF rest d o p(2)])
  then show ?case
    using len by (simp add: kv readUTF8_write set)
qed

lemma readBlocks_write:
  "list_all (\<lambda>n. length n < 65536) ns
     \<Longrightarrow> readBlocks (length ns) (concat (map writeUTF8 ns) @ r) = Some (ns, r)"
  by (induction ns) (simp_all add: readUTF8_write)

lemma readTile_write:
  assumes v: "validTile t" and c: "codecsRoundTrip ext t"
    and n: "name t \<in> set T" "length T \<le> 128"
    and b: "xpos t < w" "ypos t < h"
  shows "readTile ext T w h (tileBytes ext (t, idOf T (name t)) @ r) = Done (Some t, r)"
proof -
  have i: "idOf T (name t) < length T" "T ! idOf T (name t) = name t"
    using idOf_nth [OF n(1)] by simp_all
  then have i128: "int (idOf T (name t)) < 128" using n(2) by linarith
  have r1: "readInt8 (writeUInt8 (int (idOf T (name t))) @ z) = Some (int (idOf T (name t)), z)" for z
    using i128 by (simp add: readInt8_write)
  have r2: "readInt32BE (writeInt32BE (pack ext (xpos t) (ypos t)) @ z)
              = Some (pack ext (xpos t) (ypos t), z)" for z
    using c by (simp add: codecsRoundTrip_def readInt32BE_write)
  have r3: "readObject ext (writeObject ext (config t) @ z) = Some (config t, z)" for z
    using c by (simp add: codecsRoundTrip_def)
  have rot: "0 \<le> rotation t" "rotation t < 128" "rotation t \<in> {0, 1, 2, 3}"
    using v by (auto simp: validTile_def)
  have r4: "readInt8 (writeUInt8 (rotation t) @ z) = Some (rotation t, z)" for z
    using rot by (simp add: readInt8_write)
  have u: "unpack ext (pack ext (xpos t) (ypos t)) = (xpos t, ypos t)"
    using c by (simp add: codecsRoundTrip_def)
  have bl: "blockAt T (int (idOf T (name t))) = Some (name t)"
    using i by (simp add: blockAt_def)
  have nm: "name t \<noteq> []" "name t \<noteq> ''air''" using v by (simp_all add: validTile_def)
  show ?thesis
    using rot(3) b nm
    by (simp add: readTile_def tileBytes_def r1 r2 r3 r4 u bl Let_def)
qed

lemma readTiles_write:
  assumes "list_all validTile ts" "list_all (codecsRoundTrip ext) ts"
    and "list_all (\<lambda>t. name t \<in> set T) ts" "length T \<le> 128"
    and "list_all (\<lambda>t. xpos t < w \<and> ypos t < h) ts"
  shows "readTiles ext T w h (length ts)
           (concat (map (\<lambda>t. tileBytes ext (t, idOf T (name t))) ts) @ r)
         = Done (map Some ts, r)"
  using assms
proof (induction ts)
  case Nil
  then show ?case by simp
next
  case (Cons t ts)
  have one: "readTile ext T w h
               (tileBytes ext (t, idOf T (name t))
                @ (concat (map (\<lambda>t. tileBytes ext (t, idOf T (name t))) ts) @ r))
             = Done (Some t, concat (map (\<lambda>t. tileBytes ext (t, idOf T (name t))) ts) @ r)"
    using Cons.prems by (intro readTile_write) simp_all
  have "readTiles ext T w h (length ts)
          (concat (map (\<lambda>t. tileBytes ext (t, idOf T (name t))) ts) @ r) = Done (map Some ts, r)"
    using Cons.prems by (intro Cons.IH) simp_all
  then show ?case using one by simp
qed

lemma length_concat_rows:
  "list_all (\<lambda>row. length row = n) g \<Longrightarrow> length (concat g) = length g * n"
  by (induction g) simp_all

lemma length_rowMajor:
  assumes "gridShape w h g" "0 \<le> w" "0 \<le> h"
  shows "int (length (rowMajor g)) \<le> w * h"
proof -
  have "length (rowMajor g) \<le> length (concat g)"
    unfolding unsortTiles_rowMajor [symmetric] unsortTiles_def by simp
  also have "\<dots> = nat h * nat w"
    using assms(1) length_concat_rows [of "nat w" g] by (simp add: gridShape_def)
  finally have "length (rowMajor g) \<le> nat h * nat w" .
  then have "int (length (rowMajor g)) \<le> int (nat h * nat w)"
    by (simp only: of_nat_le_iff)
  moreover have "int (nat h * nat w) = w * h"
    using assms(2,3) by (simp add: mult.commute)
  ultimately show ?thesis by (rule ord_le_eq_trans)
qed

lemma drop_header:
  "drop 5 (concat (map writeUInt8 headerBytes) @ writeUInt8 v @ z) = z"
  by (simp add: headerBytes_def writeUInt8_def)

lemma readFields_encoded:
  assumes e: "encodable W"
    and z: "inflateSync ext (deflateSync ext (compressableData ext W)) = Some (compressableData ext W)"
  shows "readFields ext (concat (map writeUInt8 headerBytes) @ writeUInt8 (version W)
                          @ deflateSync ext (compressableData ext W))
         = Done \<lparr>p_width = width W, p_height = height W, p_version = 1, p_tags = tags W,
                  p_labels = parseLabels ext (tags W),
                  p_blocks = firstAppearance (map name (rowMajor (tiles W))),
                  p_numTiles = int (length (rowMajor (tiles W))),
                  p_rest = concat (map (\<lambda>t. tileBytes ext
                                 (t, idOf (firstAppearance (map name (rowMajor (tiles W)))) (name t)))
                               (rowMajor (tiles W)))\<rparr>"
proof -
  let ?R = "rowMajor (tiles W)"
  let ?T = "firstAppearance (map name ?R)"
  let ?recs = "concat (map (\<lambda>t. tileBytes ext (t, idOf ?T (name t))) ?R)"
  let ?d7 = "?recs"
  let ?d6 = "writeInt32BE (int (length ?R)) @ ?d7"
  let ?d5 = "concat (map writeUTF8 ?T) @ ?d6"
  let ?d4 = "writeUInt8 (int (length ?T)) @ ?d5"
  let ?d3 = "concat (map (\<lambda>kv. writeUTF8 (fst kv) @ writeUTF8 (snd kv)) (tags W)) @ ?d4"
  let ?d2 = "writeUInt8 (int (length (tags W))) @ ?d3"
  let ?d1 = "writeUInt16BE (height W) @ ?d2"
  have data: "compressableData ext W = writeUInt16BE (width W) @ ?d1"
    by (simp add: compressableData_eq)
  have ver: "version W = 1" and dims: "0 \<le> width W" "width W \<le> 128" "0 \<le> height W" "height W \<le> 128"
    using e by (simp_all add: encodable_def)
  have s0: "checkHeader headerBytes (concat (map writeUInt8 headerBytes) @ writeUInt8 (version W)
                          @ deflateSync ext (compressableData ext W))
              = Done (writeUInt8 (version W) @ deflateSync ext (compressableData ext W))"
    by (rule checkHeader_write)
  have s1: "readInt8 (writeUInt8 (version W) @ deflateSync ext (compressableData ext W))
              = Some (1, deflateSync ext (compressableData ext W))"
    using ver by (simp add: readInt8_write)
  have s2: "inflateSync ext (drop 5 (concat (map writeUInt8 headerBytes) @ writeUInt8 (version W)
                          @ deflateSync ext (compressableData ext W)))
              = Some (writeUInt16BE (width W) @ ?d1)"
    using z by (simp only: drop_header data)
  have s3: "readUInt16BE (writeUInt16BE (width W) @ ?d1) = Some (width W, ?d1)"
    using dims by (simp add: readUInt16BE_write)
  have s4: "readUInt16BE ?d1 = Some (height W, ?d2)"
    using dims by (simp add: readUInt16BE_write)
  have s5: "readUInt8 ?d2 = Some (int (length (tags W)), ?d3)"
    using e by (simp add: readUInt8_write encodable_def)
  have "list_all (\<lambda>kv. length (fst kv) < 65536 \<and> length (snd kv) < 65536) (tags W)"
    using e by (auto simp: encodable_def list_all_iff encodableText_def)
  then have s6: "readTags (length (tags W)) [] ?d3 = Some (tags W, ?d4)"
    using readTags_write [of "tags W" "[]" ?d4] e by (simp add: encodable_def)
  have s7: "readUInt8 ?d4 = Some (int (length ?T), ?d5)"
    using e by (simp add: readUInt8_write encodable_def)
  have "list_all (\<lambda>n. length n < 65536) ?T"
    using e
    by (auto simp: encodable_def list_all_iff set_firstAppearance validTile_def encodableText_def)
  then have s8: "readBlocks (length ?T) ?d5 = Some (?T, ?d6)"
    by (rule readBlocks_write)
  have "int (length ?R) \<le> width W * height W"
    using e by (intro length_rowMajor) (simp_all add: encodable_def)
  also have "\<dots> \<le> 128 * 128" using dims by (intro mult_mono) simp_all
  finally have "int (length ?R) < 2147483648" by simp
  then have s9: "readInt32BE ?d6 = Some (int (length ?R), ?d7)"
    by (simp add: readInt32BE_write)
  show ?thesis
    unfolding readFields_def
    by (simp only: s0 s1 s2 s3 s4 s5 s6 s7 s8 s9 outcome.case option.case prod.case nat_int)
      (use dims in simp)
qed

lemma read_encoded:
  assumes e: "encodable W"
    and c: "list_all (codecsRoundTrip ext) (rowMajor (tiles W))"
    and z: "inflateSync ext (deflateSync ext (compressableData ext W)) = Some (compressableData ext W)"
  shows "read ext (concat (map writeUInt8 headerBytes) @ writeUInt8 (version W)
                    @ deflateSync ext (compressableData ext W))
         = Done (readConfigs ext (W\<lparr>labels := parseLabels ext (tags W)\<rparr>))"
proof -
  let ?R = "rowMajor (tiles W)"
  let ?T = "firstAppearance (map name ?R)"
  let ?recs = "concat (map (\<lambda>t. tileBytes ext (t, idOf ?T (name t))) ?R)"
  let ?file = "concat (map writeUInt8 headerBytes) @ writeUInt8 (version W)
                 @ deflateSync ext (compressableData ext W)"
  let ?p = "\<lparr>p_width = width W, p_height = height W, p_version = 1, p_tags = tags W,
             p_labels = parseLabels ext (tags W), p_blocks = ?T,
             p_numTiles = int (length ?R), p_rest = ?recs\<rparr>"
  have f: "readFields ext ?file = Done ?p" using e z by (rule readFields_encoded)
  have shape: "gridShape (width W) (height W) (tiles W)" and home: "cellsAtHome (tiles W)"
    and dims: "0 \<le> width W" "width W \<le> 128" "0 \<le> height W" "height W \<le> 128"
    and ver: "version W = 1"
    and valid: "list_all validTile ?R" and names: "length ?T \<le> 128"
    using e by (simp_all add: encodable_def)
  have count: "int (length ?R) \<le> width W * height W"
    using shape dims(1,3) by (rule length_rowMajor)
  have inT: "list_all (\<lambda>t. name t \<in> set ?T) ?R"
    by (simp add: list_all_iff set_firstAppearance)
  have "list_all (inBounds (width W) (height W)) ?R"
    using shape home by (rule rowMajor_inBounds)
  then have below: "list_all (\<lambda>t. xpos t < width W \<and> ypos t < height W) ?R"
    by (simp add: list_all_iff inBounds_def)
  have "readTiles ext ?T (width W) (height W) (length ?R) (?recs @ []) = Done (map Some ?R, [])"
    using valid c inT names below by (rule readTiles_write)
  then have t: "readTiles ext ?T (width W) (height W) (length ?R) ?recs = Done (map Some ?R, [])"
    by simp
  have g: "sortTiles (map Some ?R) (width W) (height W) = Inr (tiles W)"
    using shape home dims(1) by (rule sortTiles_rowMajor) (use dims in simp_all)
  have eq: "W\<lparr>labels := parseLabels ext (tags W)\<rparr>
              = \<lparr>height = height W, width = width W, version = 1, tags = tags W,
                 labels = parseLabels ext (tags W), tiles = tiles W\<rparr>"
    using ver by (cases W) simp
  have n: "Schematic_new ext (height W) (width W) 1 (tags W) (parseLabels ext (tags W)) (map Some ?R)
             = Inr (readConfigs ext (W\<lparr>labels := parseLabels ext (tags W)\<rparr>))"
    by (simp only: Schematic_new_def g sum.case eq)
  show ?thesis
    unfolding read_def using count
    by (simp add: f t n)
qed

lemma cellsAtHome_map:
  assumes "cellsAtHome g"
    and "\<forall>t \<in> set (rowMajor g). xpos (f t) = xpos t \<and> ypos (f t) = ypos t"
  shows "cellsAtHome (map (map (map_option f)) g)"
  unfolding cellsAtHome_iff
proof (intro allI impI)
  fix i j t
  assume i: "i < length (map (map (map_option f)) g)"
    and j: "j < length (map (map (map_option f)) g ! i)"
    and c: "map (map (map_option f)) g ! i ! j = Some t"
  have i': "i < length g" using i by simp
  then have j': "j < length (g ! i)" using j by simp
  from c i' j' obtain u where u: "g ! i ! j = Some u" "t = f u" by auto
  then have "u \<in> set (rowMajor g)" using i' j' by (auto simp: in_set_rowMajor)
  then have "xpos t = xpos u" "ypos t = ypos u" using assms(2) u(2) by simp_all
  moreover have "xpos u = int j" "ypos u = int i"
    using assms(1) i' j' u(1) by (auto simp: cellsAtHome_iff)
  ultimately show "xpos t = int j \<and> ypos t = int i" by simp
qed

lemma grid_map_id:
  assumes "\<forall>t \<in> set (rowMajor g). f t = t"
  shows "map (map (map_option f)) g = g"
proof -
  have "map_option f c = c" if rg: "r \<in> set g" and cr: "c \<in> set r" for r c
  proof (cases c)
    case None
    then show ?thesis by simp
  next
    case (Some t)
    obtain i where i: "i < length g" "g ! i = r"
      using rg in_set_conv_nth [of r g] by blast
    obtain j where j: "j < length r" "r ! j = c"
      using cr in_set_conv_nth [of c r] by blast
    have "t \<in> set (rowMajor g)" using i j Some by (auto simp: in_set_rowMajor)
    then show ?thesis using assms Some by simp
  qed
  then show ?thesis by (simp add: map_idI)
qed

lemma encodable_writeConfigs:
  assumes e: "encodable s"
    and c: "list_all (configsRoundTrip ext) (rowMajor (tiles s))"
  shows "encodable (writeConfigs ext s)"
proof -
  let ?W = "writeConfigs ext s"
  have tl: "tiles ?W = map (map (map_option (writeConfig ext))) (tiles s)"
    and same: "version ?W = version s" "width ?W = width s" "height ?W = height s" "tags ?W = tags s"
    by (simp_all add: writeConfigs_def)
  have fr: "\<forall>t \<in> set (rowMajor (tiles s)). name (writeConfig ext t) = name t
            \<and> xpos (writeConfig ext t) = xpos t \<and> ypos (writeConfig ext t) = ypos t
            \<and> rotation (writeConfig ext t) = rotation t"
    using c by (simp add: list_all_iff configsRoundTrip_def)
  have R: "rowMajor (tiles ?W) = map (writeConfig ext) (rowMajor (tiles s))"
    by (simp add: tl rowMajor_grid_map)
  have N: "map name (rowMajor (tiles ?W)) = map name (rowMajor (tiles s))"
    using fr by (simp add: R)
  have home: "cellsAtHome (tiles ?W)"
    unfolding tl using e fr by (intro cellsAtHome_map) (simp_all add: encodable_def)
  have valid: "list_all validTile (rowMajor (tiles ?W))"
    using e fr by (auto simp: R encodable_def list_all_iff validTile_def)
  have shape: "gridShape (width ?W) (height ?W) (tiles ?W)"
    using e by (simp add: tl same gridShape_map encodable_def)
  show ?thesis
    unfolding encodable_def N
    using e home valid shape by (simp add: same encodable_def)
qed

text \<open>
  Claim C1, amended.  Let \<open>s\<close> be a schematic that \<open>read\<close> can accept (\<open>encodable\<close>: among
  others, its tags are the entries of an object without the key \<^verbatim>\<open>__proto__\<close>, and its
  strings are well-formed text), and let the functions that are not in the sources invert each
  other on it (\<open>externalsRoundTrip\<close>).  Then decoding the bytes that \<open>Schematic_write\<close>
  produces for \<open>s\<close> succeeds and yields \<open>s\<close> with the same size, version, tag map and tile
  grid, and with the label list that the tag \<^verbatim>\<open>labels\<close> denotes (the empty list when there is
  no such tag or \<^verbatim>\<open>JSON.parse\<close> rejects it); the field \<open>labels\<close> of \<open>s\<close> itself is not
  written.
\<close>

theorem C1_round_trip:
  assumes e: "encodable s" and x: "externalsRoundTrip ext s"
  shows "read ext (snd (Schematic_write ext s)) = Done (s\<lparr>labels := parseLabels ext (tags s)\<rparr>)"
proof -
  let ?W = "writeConfigs ext s"
  have c: "list_all (configsRoundTrip ext) (rowMajor (tiles s))"
    and k: "list_all (\<lambda>t. codecsRoundTrip ext (writeConfig ext t)) (rowMajor (tiles s))"
    and z: "inflateSync ext (deflateSync ext (compressableData ext ?W))
              = Some (compressableData ext ?W)"
    using x by (simp_all add: externalsRoundTrip_def list_all_iff)
  have eW: "encodable ?W" using e c by (rule encodable_writeConfigs)
  have tl: "tiles ?W = map (map (map_option (writeConfig ext))) (tiles s)"
    and tg: "tags ?W = tags s"
    by (simp_all add: writeConfigs_def)
  have cW: "list_all (codecsRoundTrip ext) (rowMajor (tiles ?W))"
    using k by (simp add: tl rowMajor_grid_map list_all_iff)
  have r: "read ext (concat (map writeUInt8 headerBytes) @ writeUInt8 (version ?W)
                    @ deflateSync ext (compressableData ext ?W))
         = Done (readConfigs ext (?W\<lparr>labels := parseLabels ext (tags ?W)\<rparr>))"
    using eW cW z by (rule read_encoded)
  have "\<forall>t \<in> set (rowMajor (tiles s)). (readConfig ext \<circ> writeConfig ext) t = t"
    using c by (simp add: list_all_iff configsRoundTrip_def)
  then have "map (map (map_option (readConfig ext \<circ> writeConfig ext))) (tiles s) = tiles s"
    by (rule grid_map_id)
  then have "map (map (map_option (readConfig ext) \<circ> map_option (writeConfig ext))) (tiles s)
               = tiles s"
    by (simp only: map_option.comp)
  then have restored: "readConfigs ext (?W\<lparr>labels := parseLabels ext (tags ?W)\<rparr>)
                     = s\<lparr>labels := parseLabels ext (tags s)\<rparr>"
    by (simp add: readConfigs_def writeConfigs_def)
  show ?thesis
    using r by (simp add: Schematic_write_def Let_def restored)
qed

lemma sample_configs: "configsRoundTrip sample t"
  by (simp add: configsRoundTrip_def sample_def)

lemma sample_codecs:
  assumes "representable Unsigned16 (xpos t)" "representable Unsigned16 (ypos t)"
  shows "codecsRoundTrip sample t"
proof -
  have "Point2_unpack XHigh Unsigned16 (Point2_pack XHigh (xpos t) (ypos t)) = (xpos t, ypos t)"
    using assms by (simp add: unpack_pack_halves read_half_mod)
  moreover have "- 2147483648 \<le> Point2_pack XHigh (xpos t) (ypos t)
                 \<and> Point2_pack XHigh (xpos t) (ypos t) < 2147483648"
    by (rule Point2_pack_range)
  ultimately show ?thesis
    by (simp add: codecsRoundTrip_def sample_def null_readObject_def null_writeObject_def)
qed

text \<open>The block index is written as an unsigned byte and read as a signed one: the index
  128 comes back as -128, which is outside every table of names.\<close>

lemma block_index_128:
  "readInt8 (writeUInt8 128 @ r) = Some (- 128, r) \<and> blockAt blocks (- 128) = None"
  by (simp add: writeUInt8_def blockAt_def)

text \<open>
  Claim C1, as stated, fails: \<open>Schematic_write\<close> does not write the field \<open>labels\<close>, and
  \<open>read\<close> takes the labels from the tag \<^verbatim>\<open>labels\<close>.  A 1x1 schematic with one valid tile, no
  tags and the label list \<^verbatim>\<open>["note"]\<close> comes back with the empty label list.
\<close>

theorem C1_labels_not_written_counterexample:
  "Schematic_new sample 1 1 1 [] (JArray [JString ''note'']) [Some (wall ''copper-wall'' 0 0)]
     = Inr ((oneCell (Some (wall ''copper-wall'' 0 0)))\<lparr>labels := JArray [JString ''note'']\<rparr>)
   \<and> read sample (snd (Schematic_write sample
         ((oneCell (Some (wall ''copper-wall'' 0 0)))\<lparr>labels := JArray [JString ''note'']\<rparr>)))
     = Done ((oneCell (Some (wall ''copper-wall'' 0 0)))\<lparr>labels := JArray []\<rparr>)"
  by code_simp

text \<open>Two more schematics that do not come back, which is why \<open>encodable\<close> asks for names
  other than \<^verbatim>\<open>air\<close> and for version 1: a tile named \<^verbatim>\<open>air\<close> is written and then skipped by
  \<open>read\<close>, which throws on the hole it leaves; a version other than 1 is written and then
  rejected.\<close>

lemma air_tile_does_not_come_back:
  "read sample (snd (Schematic_write sample (oneCell (Some (wall ''air'' 0 0)))))
     = Thrown UndefinedAccess"
  by code_simp

lemma version_2_does_not_come_back:
  "read sample (snd (Schematic_write sample ((oneCell None)\<lparr>version := 2\<rparr>)))
     = Rejected (UnknownVersion 2)"
  by code_simp

text \<open>A tag whose key is \<^verbatim>\<open>__proto__\<close> does not come back either: \<open>Schematic_write\<close> writes
  it, and the assignment in \<open>read\<close> stores nothing.  Tags that are not in the order of
  \<^verbatim>\<open>Object.entries\<close> (which no object yields) come back in that order.\<close>

lemma proto_tag_does_not_come_back:
  "read sample (snd (Schematic_write sample ((oneCell None)\<lparr>tags := [(''__proto__'', ''v'')]\<rparr>)))
     = Done (oneCell None)"
  by code_simp

lemma tags_come_back_in_entries_order:
  "read sample (snd (Schematic_write sample
      ((oneCell None)\<lparr>tags := [(''b'', ''x''), (''10'', ''y''), (''9'', ''z''), (''01'', ''w'')]\<rparr>)))
     = Done ((oneCell None)\<lparr>tags := [(''9'', ''z''), (''10'', ''y''), (''b'', ''x''), (''01'', ''w'')]\<rparr>)"
  by code_simp

text \<open>Claim C1, amended, at the 2x2 schematic with three tiles and three tags, two of them
  with keys that are array indices.\<close>

theorem C1_round_trip_witness:
  "encodable (twoRowsSchematic (JArray []))
   \<and> externalsRoundTrip sample (twoRowsSchematic (JArray []))
   \<and> read sample (snd (Schematic_write sample (twoRowsSchematic (JArray []))))
       = Done (twoRowsSchematic (JArray []))"
proof -
  let ?s = "twoRowsSchematic (JArray [])"
  have r: "rowMajor twoRows = [wall ''b'' 0 0, wall ''a'' 0 1, wall ''b'' 1 1]" by code_simp
  have f: "firstAppearance (map name [wall ''b'' 0 0, wall ''a'' 0 1, wall ''b'' 1 1]) = [''b'', ''a'']"
    by code_simp
  have sh: "gridShape 2 2 twoRows" by code_simp
  have hm: "cellsAtHome twoRows" by code_simp
  have v: "list_all validTile [wall ''b'' 0 0, wall ''a'' 0 1, wall ''b'' 1 1]"
    by (simp add: validTile_def wall_def encodableText_def)
  have t: "tiles ?s = twoRows" by (simp add: twoRowsSchematic_def)
  have e1: "version ?s = 1 \<and> 0 \<le> width ?s \<and> width ?s \<le> 128 \<and> 0 \<le> height ?s \<and> height ?s \<le> 128"
    by (simp add: twoRowsSchematic_def)
  have e2: "gridShape (width ?s) (height ?s) (tiles ?s) \<and> cellsAtHome (tiles ?s)"
    using sh hm by (simp add: twoRowsSchematic_def)
  have e3: "distinct (map fst (tags ?s)) \<and> length (tags ?s) < 256
      \<and> entriesOrder (map fst (tags ?s)) \<and> ''__proto__'' \<notin> set (map fst (tags ?s))
      \<and> list_all (\<lambda>kv. encodableText (fst kv) \<and> encodableText (snd kv)) (tags ?s)"
    by (simp add: twoRowsSchematic_def encodableText_def isArrayIndex_def isDigit_def decimal_def)
  have e4: "list_all validTile (rowMajor (tiles ?s))"
    unfolding t r by (rule v)
  have e5: "length (firstAppearance (map name (rowMajor (tiles ?s)))) \<le> 128"
    unfolding t r f by simp
  have e: "encodable ?s"
    unfolding encodable_def using e1 e2 e3 e4 e5 by blast
  have z: "inflateSync sample (deflateSync sample (compressableData sample (writeConfigs sample ?s)))
             = Some (compressableData sample (writeConfigs sample ?s))"
    by code_simp
  have w: "writeConfig sample t = t" for t by (simp add: sample_def)
  have c: "codecsRoundTrip sample (wall n 0 0)" "codecsRoundTrip sample (wall n 0 1)"
    "codecsRoundTrip sample (wall n 1 1)" for n
    by (rule sample_codecs; simp add: wall_def representable_def)+
  have x: "externalsRoundTrip sample ?s"
    unfolding externalsRoundTrip_def using z by (simp add: t r w c sample_configs)
  have l: "parseLabels sample (tags ?s) = JArray []" by code_simp
  have "?s\<lparr>labels := JArray []\<rparr> = ?s" by (simp add: twoRowsSchematic_def)
  then have "read sample (snd (Schematic_write sample ?s)) = Done ?s"
    using C1_round_trip [OF e x] by (simp only: l)
  with e x show ?thesis by blast
qed

subsection \<open>The constructor establishes the invariant of the grid\<close>

lemma cellsAtHome_place:
  assumes s: "gridShape w h g" and c: "cellsAtHome g" and b: "inBounds w h t"
  shows "cellsAtHome (place g t)"
  unfolding cellsAtHome_iff
proof (intro allI impI)
  fix i j u
  assume i: "i < length (place g t)" and j: "j < length (place g t ! i)"
    and u: "place g t ! i ! j = Some u"
  have sp: "gridShape w h (place g t)" using s by (rule gridShape_place)
  have ih: "i < nat h" using i sp by (simp add: gridShape_iff)
  then have jw: "j < nat w" using j sp by (simp add: gridShape_iff)
  have cell: "place g t ! i ! j
                = (if nat (ypos t) = i \<and> nat (xpos t) = j then Some t else g ! i ! j)"
    using s b ih jw by (rule place_cell)
  show "xpos u = int j \<and> ypos u = int i"
  proof (cases "nat (ypos t) = i \<and> nat (xpos t) = j")
    case True
    then have "place g t ! i ! j = Some t" by (simp add: cell)
    then have "u = t" using u by simp
    then show ?thesis using True b by (auto simp: inBounds_def)
  next
    case False
    then have "place g t ! i ! j = g ! i ! j" by (auto simp: cell)
    then have "g ! i ! j = Some u" using u by simp
    moreover have "i < length g" "j < length (g ! i)" using ih jw s by (simp_all add: gridShape_iff)
    ultimately show ?thesis using c by (auto simp: cellsAtHome_iff)
  qed
qed

lemma placeTiles_cellsAtHome:
  "placeTiles ts w h g = Inr g' \<Longrightarrow> gridShape w h g \<Longrightarrow> cellsAtHome g \<Longrightarrow> cellsAtHome g'"
proof (induction ts w h g rule: placeTiles.induct)
  case (1 w h g)
  then show ?case by simp
next
  case (2 ts w h g)
  then show ?case by simp
next
  case (3 t ts w h g)
  have b: "inBounds w h t" using "3.prems"(1) by (auto simp: inBounds_def split: if_splits)
  then have r: "placeTiles ts w h (place g t) = Inr g'"
    using "3.prems"(1) by (simp add: inBounds_def place_def)
  have "cellsAtHome g'"
    using b r gridShape_place [OF "3.prems"(2)] cellsAtHome_place [OF "3.prems"(2,3) b]
    by (intro "3.IH") (simp_all add: inBounds_def place_def)
  then show ?case .
qed

lemma sortTiles_cellsAtHome:
  assumes "sortTiles ts w h = Inr g"
  shows "cellsAtHome g"
proof -
  obtain g0 where g0: "emptyGrid w h = Inr g0" and p: "placeTiles ts w h g0 = Inr g"
    using assms by (auto simp: sortTiles_def split: sum.splits)
  have "g0 = replicate (nat h) (replicate (nat w) None)"
    using g0 by (auto simp: emptyGrid_def split: if_splits)
  then have "cellsAtHome g0" by (simp add: cellsAtHome_iff)
  with p emptyGrid_shape [OF g0] show ?thesis by (rule placeTiles_cellsAtHome)
qed

text \<open>A schematic that the constructor returns has a grid of the declared shape with every
  tile in the cell of its coordinates, provided \<^verbatim>\<open>readConfig\<close> leaves the coordinates alone.\<close>

lemma Schematic_new_grid:
  assumes n: "Schematic_new ext h w v tgs lbls ts = Inr s"
    and r: "\<And>t. xpos (readConfig ext t) = xpos t \<and> ypos (readConfig ext t) = ypos t"
  shows "gridShape (width s) (height s) (tiles s) \<and> cellsAtHome (tiles s)"
proof -
  obtain g where g: "sortTiles ts w h = Inr g"
    and s: "s = readConfigs ext \<lparr>height = h, width = w, version = v, tags = tgs,
                                   labels = lbls, tiles = g\<rparr>"
    using n by (auto simp: Schematic_new_def split: sum.splits)
  have "cellsAtHome (map (map (map_option (readConfig ext))) g)"
    using sortTiles_cellsAtHome [OF g] r by (intro cellsAtHome_map) simp_all
  then have "cellsAtHome (tiles s)" by (simp add: s readConfigs_def)
  then show ?thesis using Schematic_new_fields [OF n] by simp
qed

end
